theory Spec2Isabelle
  imports Complex_Main "HOL-Library.AList" "HOL-Library.Sublist" "HOL-Library.Char_ord"
    "HOL-Library.List_Lexorder"
begin

section \<open>Lead extraction and registry of \<^verbatim>\<open>streamlit_app.py\<close>\<close>

text \<open>
  The development embeds the pure core of \<^verbatim>\<open>streamlit_app.py\<close>: the extractor
  \<^verbatim>\<open>extract_lead_data\<close>, the registry update \<^verbatim>\<open>update_lead_info\<close>, the export
  \<^verbatim>\<open>save_leads_to_csv\<close> with its button, and the two places that cut a reply for display.

  Conventions of the embedding.
  \<^item> A Python \<^verbatim>\<open>str\<close> is a \<^typ>\<open>string\<close>; a \<^typ>\<open>char\<close> stands for a code point below 256.
  \<^item> A Python value that \<^verbatim>\<open>json.loads\<close> can return is a \<open>pyval\<close>. A float is
    \<^verbatim>\<open>nan\<close>, an infinity, or the rational number that a finite float stands for
    (\<^verbatim>\<open>0.0\<close> and \<^verbatim>\<open>-0.0\<close>, which are equal and both false, are one value).
  \<^item> A \<^verbatim>\<open>dict\<close> is an association list in insertion order; a lookup reads the first
    entry of a key, an item assignment replaces it in place or appends a new key.
  \<^item> \<^verbatim>\<open>st.session_state.leads\<close> is passed in and returned; \<^verbatim>\<open>datetime.now().isoformat()\<close>
    is the parameter \<open>now\<close>; \<^verbatim>\<open>json.loads\<close> is the parameter \<open>loads\<close>.
  \<^item> A raised exception is the \<open>Inl\<close> of a sum.
  \<^item> Dicts are values: every dict handed to \<^verbatim>\<open>update_lead_info\<close> is a fresh object from
    the decoder (lines 137 and 138), so no dict of the registry is reachable from elsewhere.
\<close>

subsection \<open>Python values\<close>

datatype pyfloat = FNaN | FInf | FNegInf | FFinite rat

datatype pyval =
    PyNone
  | PyBool bool
  | PyInt int
  | PyFloat pyfloat
  | PyStr string
  | PyList "pyval list"
  | PyDict "(string \<times> pyval) list"

type_synonym pydict = "(string \<times> pyval) list"

datatype py_error = JSONDecodeError | TypeError | ValueError | IndexError

text \<open>Truth value of an object, as \<^verbatim>\<open>not x\<close> and \<^verbatim>\<open>if x:\<close> test it.\<close>

fun py_truthy :: "pyval \<Rightarrow> bool" where
  "py_truthy PyNone = False"
| "py_truthy (PyBool b) = b"
| "py_truthy (PyInt n) = (n \<noteq> 0)"
| "py_truthy (PyFloat f) = (f \<noteq> FFinite 0)"
| "py_truthy (PyStr s) = (s \<noteq> [])"
| "py_truthy (PyList xs) = (xs \<noteq> [])"
| "py_truthy (PyDict d) = (d \<noteq> [])"

text \<open>
  Python's \<^verbatim>\<open>==\<close> on these values. Numbers are compared by their exact value, a bool
  counting as the int 0 or 1, so that \<^verbatim>\<open>True == 1\<close> and \<^verbatim>\<open>1 == 1.0\<close>; \<^verbatim>\<open>nan\<close> equals
  nothing, not even itself. Lists are compared element by element and dicts as mappings,
  whatever the order of their keys, and values of different kinds are unequal. A list or
  dict compares its elements by identity before it compares them with \<^verbatim>\<open>==\<close>, and the
  decoder returns one and the same object for every \<^verbatim>\<open>NaN\<close> it reads: inside a list or a
  dict a \<^verbatim>\<open>nan\<close> therefore equals a \<^verbatim>\<open>nan\<close>.

  \<open>canon\<close> maps a value to a representative of its class under the comparison of
  elements: numbers become floats and the entries of a dict are sorted by key. \<open>py_eq\<close>
  is \<^verbatim>\<open>==\<close> itself, which differs from it at \<^verbatim>\<open>nan\<close> only.
\<close>

primrec canon :: "pyval \<Rightarrow> pyval" where
  "canon PyNone = PyNone"
| "canon (PyBool b) = PyFloat (FFinite (if b then 1 else 0))"
| "canon (PyInt n) = PyFloat (FFinite (of_int n))"
| "canon (PyFloat f) = PyFloat f"
| "canon (PyStr s) = PyStr s"
| "canon (PyList xs) = PyList (map canon xs)"
| "canon (PyDict d) = PyDict (sort_key fst (map (map_prod id canon) d))"

definition py_eq :: "pyval \<Rightarrow> pyval \<Rightarrow> bool" where
  "py_eq a b = (a \<noteq> PyFloat FNaN \<and> b \<noteq> PyFloat FNaN \<and> canon a = canon b)"

text \<open>\<^verbatim>\<open>d.get(k)\<close>: the value of the key, \<^verbatim>\<open>None\<close> when the key is missing.\<close>

definition dict_get :: "pydict \<Rightarrow> string \<Rightarrow> pyval" where
  "dict_get d k = (case map_of d k of None \<Rightarrow> PyNone | Some v \<Rightarrow> v)"

text \<open>\<^verbatim>\<open>d[k] = v\<close>.\<close>

definition dict_setitem :: "string \<Rightarrow> pyval \<Rightarrow> pydict \<Rightarrow> pydict" where
  "dict_setitem k v d = AList.update k v d"

text \<open>\<^verbatim>\<open>d.update(e)\<close>, that is \<^verbatim>\<open>for k in e: d[k] = e[k]\<close>.\<close>

definition dict_update :: "pydict \<Rightarrow> pydict \<Rightarrow> pydict" where
  "dict_update d e = fold (\<lambda>k acc. dict_setitem k (dict_get e k) acc) (map fst e) d"

subsection \<open>Python string operations\<close>

text \<open>\<^verbatim>\<open>s.find(sub, start)\<close>: the lowest index from \<open>start\<close> on where \<open>sub\<close> begins, or -1.\<close>

fun find_aux :: "string \<Rightarrow> string \<Rightarrow> nat \<Rightarrow> int" where
  "find_aux sub [] i = (if sub = [] then int i else -1)"
| "find_aux sub (c # cs) i =
     (if prefix sub (c # cs) then int i else find_aux sub cs (Suc i))"

definition py_find :: "string \<Rightarrow> string \<Rightarrow> int \<Rightarrow> int" where
  "py_find s sub start =
     (let n = int (length s);
          st = (if start < 0 then max (start + n) 0 else start)
      in if st > n then -1 else find_aux sub (drop (nat st) s) (nat st))"

text \<open>\<^verbatim>\<open>s[a:b]\<close> with Python's clamping of both indices.\<close>

definition py_index :: "nat \<Rightarrow> int \<Rightarrow> nat" where
  "py_index n i = (if i < 0 then nat (max (i + int n) 0) else min (nat i) n)"

definition py_slice :: "string \<Rightarrow> int \<Rightarrow> int \<Rightarrow> string" where
  "py_slice s a b =
     (let lo = py_index (length s) a; hi = py_index (length s) b
      in take (hi - lo) (drop lo s))"

text \<open>
  \<^verbatim>\<open>s.strip()\<close> removes leading and trailing whitespace; below 256 the whitespace code
  points are 9 to 13, 28 to 32, 133 and 160.
\<close>

definition is_space :: "char \<Rightarrow> bool" where
  "is_space c = (let n = of_char c :: nat
                 in (9 \<le> n \<and> n \<le> 13) \<or> (28 \<le> n \<and> n \<le> 32) \<or> n = 133 \<or> n = 160)"

definition py_strip :: "string \<Rightarrow> string" where
  "py_strip s = rev (dropWhile is_space (rev (dropWhile is_space s)))"

text \<open>
  \<^verbatim>\<open>s.split(sep)\<close>: the pieces between the occurrences of \<open>sep\<close>, found from left to
  right without overlap; an empty separator raises \<^verbatim>\<open>ValueError\<close>.
\<close>

fun split_aux :: "string \<Rightarrow> string \<Rightarrow> string \<Rightarrow> string list" where
  "split_aux sep acc [] = [rev acc]"
| "split_aux sep acc (c # cs) =
     (if sep \<noteq> [] \<and> prefix sep (c # cs)
      then rev acc # split_aux sep [] (drop (length sep - 1) cs)
      else split_aux sep (c # acc) cs)"

definition py_split :: "string \<Rightarrow> string \<Rightarrow> py_error + string list" where
  "py_split s sep = (if sep = [] then Inl ValueError else Inr (split_aux sep [] s))"

text \<open>\<^verbatim>\<open>xs[0]\<close>.\<close>

definition py_first :: "'a list \<Rightarrow> py_error + 'a" where
  "py_first xs = (case xs of [] \<Rightarrow> Inl IndexError | x # _ \<Rightarrow> Inr x)"

subsection \<open>The extractor\<close>

definition fence_open :: string where
  "fence_open = ''```json''"

definition fence_close :: string where
  "fence_close = ''```''"

datatype ui_event =
    Error string
  | Warning string
  | Success string
  | DownloadButton "string list list"

type_synonym decoder = "string \<Rightarrow> py_error + pyval"

text \<open>
  \<^verbatim>\<open>extract_lead_data\<close> (lines 51 to 61). Everything raised inside the \<^verbatim>\<open>try\<close> is caught,
  reported with \<^verbatim>\<open>st.error\<close>, and the function falls through to \<^verbatim>\<open>return {}\<close>. The
  result is the returned value together with the notices shown (the notice without the
  text of the exception).
\<close>

definition extract_lead_data :: "decoder \<Rightarrow> string \<Rightarrow> pyval \<times> ui_event list" where
  "extract_lead_data loads response =
     (let json_start = py_find response fence_open 0;
          json_end = py_find response fence_close (json_start + 6)
      in if json_start \<noteq> -1 \<and> json_end \<noteq> -1
         then (let json_str = py_strip (py_slice response (json_start + 7) json_end)
               in case loads json_str of
                    Inr v \<Rightarrow> (v, [])
                  | Inl e \<Rightarrow> (PyDict [], [Error ''Error extracting lead data'']))
         else (PyDict [], []))"

subsection \<open>The registry\<close>

text \<open>
  The loop of \<^verbatim>\<open>update_lead_info\<close> (lines 69 to 72): the first lead whose email equals
  the incoming one is updated and the function returns; \<open>None\<close> when the loop ends
  without a match.
\<close>

fun merge_first :: "pydict \<Rightarrow> pydict list \<Rightarrow> pydict list option" where
  "merge_first lead_data [] = None"
| "merge_first lead_data (lead # rest) =
     (if py_eq (dict_get lead ''email'') (dict_get lead_data ''email'')
      then Some (dict_update lead lead_data # rest)
      else map_option ((#) lead) (merge_first lead_data rest))"

text \<open>
  \<^verbatim>\<open>update_lead_info\<close> (lines 63 to 73). The item assignment of line 67 succeeds on a
  dict only: on a non-empty list, a non-empty string, a non-zero number or \<^verbatim>\<open>True\<close> it
  raises \<^verbatim>\<open>TypeError\<close>.
\<close>

definition update_lead_info :: "string \<Rightarrow> pyval \<Rightarrow> pydict list \<Rightarrow> py_error + pydict list" where
  "update_lead_info now lead_data leads =
     (if \<not> py_truthy lead_data then Inr leads
      else case lead_data of
        PyDict d \<Rightarrow>
          (let d' = dict_setitem ''timestamp'' (PyStr now) d
           in if py_truthy (dict_get d' ''email'')
              then (case merge_first d' leads of
                      Some leads' \<Rightarrow> Inr leads'
                    | None \<Rightarrow> Inr (leads @ [d']))
              else Inr (leads @ [d']))
      | _ \<Rightarrow> Inl TypeError)"

text \<open>Lines 137 and 138: the reply is extracted and the result handed to the registry.\<close>

definition process_reply :: "decoder \<Rightarrow> string \<Rightarrow> string \<Rightarrow> pydict list \<Rightarrow> py_error + pydict list" where
  "process_reply loads now response leads =
     update_lead_info now (fst (extract_lead_data loads response)) leads"

subsection \<open>Display of a reply\<close>

text \<open>
  The render loop over the chat history (lines 118 to 125): the content of an assistant
  message is cut at the first \<^verbatim>\<open>```json\<close>, found with \<^verbatim>\<open>find\<close>.
\<close>

definition history_content :: "string \<Rightarrow> string \<Rightarrow> string" where
  "history_content role content =
     (if role = ''assistant''
      then (let json_start = py_find content fence_open 0
            in if json_start \<noteq> -1 then py_slice content 0 json_start else content)
      else content)"

text \<open>The fresh reply (line 139): \<^verbatim>\<open>response.split("```json")[0]\<close>.\<close>

definition display_response :: "string \<Rightarrow> py_error + string" where
  "display_response response =
     (case py_split response fence_open of Inl e \<Rightarrow> Inl e | Inr parts \<Rightarrow> py_first parts)"

text \<open>The reply of the scenario in Section 8 of the specification.\<close>

definition scenario_reply :: string where
  \<open>scenario_reply = ''Thanks! ```json\<newline>{"email":"a@b.com","lead_quality":"hot"}\<newline>```''\<close>

subsection \<open>A decoder for a fragment of JSON\<close>

text \<open>
  \<^verbatim>\<open>json.loads\<close> belongs to the standard library, and the functions above take it as
  the parameter \<open>loads\<close>. To run them on concrete replies, \<open>json_loads\<close> decodes the JSON
  texts made of objects, arrays, strings (with the escapes of one character), integers,
  \<^verbatim>\<open>true\<close>, \<^verbatim>\<open>false\<close>, \<^verbatim>\<open>null\<close>, \<^verbatim>\<open>NaN\<close>, \<^verbatim>\<open>Infinity\<close> and \<^verbatim>\<open>-Infinity\<close>. Numbers with a
  fraction or an exponent and \<^verbatim>\<open>\u\<close> escapes are outside this fragment: such a text is a
  decoding error here, and no statement below evaluates \<open>json_loads\<close> on one. The first
  argument of the three parsers bounds the depth of the recursion.
\<close>

definition json_ws :: "char \<Rightarrow> bool" where
  "json_ws c = (c = CHR '' '' \<or> c = CHR 0x09 \<or> c = CHR 0x0A \<or> c = CHR 0x0D)"

definition skip_ws :: "string \<Rightarrow> string" where
  "skip_ws s = dropWhile json_ws s"

definition unescape :: "char \<Rightarrow> char option" where
  \<open>unescape c =
     (if c = CHR ''"'' then Some (CHR ''"'')
      else if c = CHR 0x5C then Some (CHR 0x5C)
      else if c = CHR ''/'' then Some (CHR ''/'')
      else if c = CHR ''b'' then Some (CHR 0x08)
      else if c = CHR ''f'' then Some (CHR 0x0C)
      else if c = CHR ''n'' then Some (CHR 0x0A)
      else if c = CHR ''r'' then Some (CHR 0x0D)
      else if c = CHR ''t'' then Some (CHR 0x09)
      else None)\<close>

fun parse_chars :: "string \<Rightarrow> string \<Rightarrow> (string \<times> string) option" where
  "parse_chars [] acc = None"
| \<open>parse_chars (c # cs) acc =
     (if c = CHR ''"'' then Some (rev acc, cs)
      else if c = CHR 0x5C then
        (case cs of
           [] \<Rightarrow> None
         | e # cs' \<Rightarrow>
             (case unescape e of None \<Rightarrow> None | Some x \<Rightarrow> parse_chars cs' (x # acc)))
      else if (of_char c :: nat) < 32 then None
      else parse_chars cs (c # acc))\<close>

definition is_digit :: "char \<Rightarrow> bool" where
  "is_digit c = (48 \<le> (of_char c :: nat) \<and> (of_char c :: nat) \<le> 57)"

definition digits_value :: "string \<Rightarrow> int" where
  "digits_value ds = foldl (\<lambda>n c. 10 * n + (int (of_char c) - 48)) 0 ds"

definition parse_nat :: "string \<Rightarrow> (int \<times> string) option" where
  "parse_nat s =
     (case s of
        [] \<Rightarrow> None
      | c # cs \<Rightarrow>
          if c = CHR ''0'' then Some (0, cs)
          else if is_digit c then Some (digits_value (takeWhile is_digit s), dropWhile is_digit s)
          else None)"

definition parse_int :: "string \<Rightarrow> (int \<times> string) option" where
  "parse_int s =
     (case (case s of
              [] \<Rightarrow> None
            | c # cs \<Rightarrow>
                if c = CHR ''-'' then map_option (\<lambda>(n, r). (- n, r)) (parse_nat cs)
                else parse_nat s) of
        None \<Rightarrow> None
      | Some (n, r) \<Rightarrow>
          (case r of
             [] \<Rightarrow> Some (n, r)
           | c # _ \<Rightarrow> if c = CHR ''.'' \<or> c = CHR ''e'' \<or> c = CHR ''E'' then None else Some (n, r)))"

fun parse_value :: "nat \<Rightarrow> string \<Rightarrow> (pyval \<times> string) option"
  and parse_elems :: "nat \<Rightarrow> string \<Rightarrow> pyval list \<Rightarrow> (pyval list \<times> string) option"
  and parse_members :: "nat \<Rightarrow> string \<Rightarrow> pydict \<Rightarrow> (pydict \<times> string) option" where
  "parse_value 0 s = None"
| \<open>parse_value (Suc n) s =
     (case s of
        [] \<Rightarrow> None
      | c # cs \<Rightarrow>
          if c = CHR ''{'' then
            (case skip_ws cs of
               [] \<Rightarrow> None
             | x # r \<Rightarrow> if x = CHR ''}'' then Some (PyDict [], r) else map_option (\<lambda>(d, r'). (PyDict d, r')) (parse_members n (x # r) []))
          else if c = CHR ''['' then
            (case skip_ws cs of
               [] \<Rightarrow> None
             | x # r \<Rightarrow> if x = CHR '']'' then Some (PyList [], r) else map_option (\<lambda>(xs, r'). (PyList xs, r')) (parse_elems n (x # r) []))
          else if c = CHR ''"'' then
            map_option (\<lambda>(str, r). (PyStr str, r)) (parse_chars cs [])
          else if prefix ''null'' s then Some (PyNone, drop 4 s)
          else if prefix ''true'' s then Some (PyBool True, drop 4 s)
          else if prefix ''false'' s then Some (PyBool False, drop 5 s)
          else if prefix ''NaN'' s then Some (PyFloat FNaN, drop 3 s)
          else if prefix ''Infinity'' s then Some (PyFloat FInf, drop 8 s)
          else if prefix ''-Infinity'' s then Some (PyFloat FNegInf, drop 9 s)
          else map_option (\<lambda>(n, r). (PyInt n, r)) (parse_int s))\<close>
| "parse_elems 0 s acc = None"
| \<open>parse_elems (Suc n) s acc =
     (case parse_value n s of
        None \<Rightarrow> None
      | Some (v, r) \<Rightarrow>
          (case skip_ws r of
             [] \<Rightarrow> None
           | x # r' \<Rightarrow>
               if x = CHR '','' then parse_elems n (skip_ws r') (acc @ [v])
               else if x = CHR '']'' then Some (acc @ [v], r')
               else None))\<close>
| "parse_members 0 s acc = None"
| \<open>parse_members (Suc n) s acc =
     (case s of
        [] \<Rightarrow> None
      | q # cs \<Rightarrow>
          if q \<noteq> CHR ''"'' then None
          else
            (case parse_chars cs [] of
               None \<Rightarrow> None
             | Some (k, r) \<Rightarrow>
                 (case skip_ws r of
                    [] \<Rightarrow> None
                  | y # r1 \<Rightarrow>
                      if y \<noteq> CHR '':'' then None
                      else
                        (case parse_value n (skip_ws r1) of
                           None \<Rightarrow> None
                         | Some (v, r2) \<Rightarrow>
                             (case skip_ws r2 of
                                [] \<Rightarrow> None
                              | x # r3 \<Rightarrow>
                                  if x = CHR '','' then
                                    parse_members n (skip_ws r3) (dict_setitem k v acc)
                                  else if x = CHR ''}'' then Some (dict_setitem k v acc, r3)
                                  else None)))))\<close>

definition json_loads :: decoder where
  "json_loads s =
     (case parse_value (2 * length s + 2) (skip_ws s) of
        None \<Rightarrow> Inl JSONDecodeError
      | Some (v, r) \<Rightarrow> if skip_ws r = [] then Inr v else Inl JSONDecodeError)"

subsection \<open>Occurrences of a marker\<close>

text \<open>
  \<open>first_at sub s i\<close>: the first occurrence of \<open>sub\<close> in \<open>s\<close> begins at index \<open>i\<close>;
  \<open>absent sub s\<close>: \<open>sub\<close> does not occur in \<open>s\<close>.
\<close>

definition first_at :: "string \<Rightarrow> string \<Rightarrow> nat \<Rightarrow> bool" where
  "first_at sub s i = (i \<le> length s \<and> prefix sub (drop i s) \<and> (\<forall>j<i. \<not> prefix sub (drop j s)))"

definition absent :: "string \<Rightarrow> string \<Rightarrow> bool" where
  "absent sub s = (\<forall>j\<le>length s. \<not> prefix sub (drop j s))"

text \<open>\<open>trimmed s\<close>: \<open>s\<close> neither begins nor ends with whitespace.\<close>

definition trimmed :: "string \<Rightarrow> bool" where
  "trimmed s = (case s of [] \<Rightarrow> True | c # cs \<Rightarrow> \<not> is_space c \<and> \<not> is_space (last (c # cs)))"

subsection \<open>Registries\<close>

text \<open>
  The registry starts empty (lines 17 and 18) and changes through \<^verbatim>\<open>update_lead_info\<close>
  only; \<open>reachable\<close> collects the registries that returning calls lead to.
\<close>

inductive reachable :: "pydict list \<Rightarrow> bool" where
  initial: "reachable []"
| upsert: "reachable leads \<Longrightarrow> update_lead_info now lead_data leads = Inr leads' \<Longrightarrow>
     reachable leads'"

text \<open>
  No two entries share an email that counts as true: an email is compared with
  \<^verbatim>\<open>==\<close> and tested with \<^verbatim>\<open>if\<close>, as \<^verbatim>\<open>update_lead_info\<close> does.
\<close>

definition unique_emails :: "pydict list \<Rightarrow> bool" where
  "unique_emails leads =
     (\<forall>i<length leads. \<forall>j<length leads.
        i \<noteq> j \<and> py_truthy (dict_get (leads ! i) ''email'') \<longrightarrow>
        \<not> py_eq (dict_get (leads ! i) ''email'') (dict_get (leads ! j) ''email''))"

subsection \<open>Export\<close>

text \<open>
  \<^verbatim>\<open>pd.DataFrame(leads)\<close> makes one row per dict and one column per key, the columns in
  the order in which the keys first appear; a key that a dict lacks is a missing cell.
  \<^verbatim>\<open>to_csv(index=False)\<close> writes the row of column names and then one row per record.
  How pandas prints a cell and quotes a field is left to the parameter \<open>cell\<close>, and a CSV
  text is kept as its rows, each the list of its fields.
\<close>

definition add_column :: "string \<Rightarrow> string list \<Rightarrow> string list" where
  "add_column k cols = (if k \<in> set cols then cols else cols @ [k])"

definition columns_of :: "pydict list \<Rightarrow> string list" where
  "columns_of leads = fold (\<lambda>lead cols. fold add_column (map fst lead) cols) leads []"

record dataframe =
  df_columns :: "string list"
  df_rows :: "pyval option list list"

definition DataFrame :: "pydict list \<Rightarrow> dataframe" where
  "DataFrame leads =
     \<lparr>df_columns = columns_of leads,
      df_rows = map (\<lambda>lead. map (map_of lead) (columns_of leads)) leads\<rparr>"

definition to_csv :: "(pyval option \<Rightarrow> string) \<Rightarrow> dataframe \<Rightarrow> string list list" where
  "to_csv cell df = df_columns df # map (map cell) (df_rows df)"

text \<open>
  \<^verbatim>\<open>save_leads_to_csv\<close> (lines 75 to 81): the returned flag and what was written to
  \<^verbatim>\<open>leads.csv\<close>, nothing when the registry is empty.
\<close>

definition save_leads_to_csv ::
    "(pyval option \<Rightarrow> string) \<Rightarrow> pydict list \<Rightarrow> bool \<times> string list list option" where
  "save_leads_to_csv cell leads =
     (if leads \<noteq> [] then (True, Some (to_csv cell (DataFrame leads))) else (False, None))"

text \<open>The button \<^verbatim>\<open>Export Leads\<close> (lines 102 to 112): what it shows when pressed.\<close>

definition export_button :: "(pyval option \<Rightarrow> string) \<Rightarrow> pydict list \<Rightarrow> ui_event list" where
  "export_button cell leads =
     (if fst (save_leads_to_csv cell leads)
      then [Success ''Leads exported to leads.csv'',
            DownloadButton (to_csv cell (DataFrame leads))]
      else [Warning ''No leads to export''])"

section \<open>Properties\<close>

subsection \<open>Searching a string\<close>

lemma find_aux_range: "find_aux sub s k = -1 \<or> (int k \<le> find_aux sub s k \<and> find_aux sub s k \<le> int (k + length s))"
  by (induction s arbitrary: k) (auto, force+)

lemma find_aux_shift: "find_aux sub s k = (if find_aux sub s 0 = -1 then -1 else find_aux sub s 0 + int k)"
proof (induction s arbitrary: k)
  case Nil
  then show ?case by simp
next
  case (Cons c cs)
  show ?case
  proof (cases "prefix sub (c # cs)")
    case True then show ?thesis by simp
  next
    case False
    have a: "find_aux sub cs (Suc k) = (if find_aux sub cs 0 = -1 then -1 else find_aux sub cs 0 + int (Suc k))"
      by (rule Cons.IH)
    have b: "find_aux sub cs (Suc 0) = (if find_aux sub cs 0 = -1 then -1 else find_aux sub cs 0 + int (Suc 0))"
      by (rule Cons.IH)
    have c: "find_aux sub cs 0 = -1 \<or> 0 \<le> find_aux sub cs 0" using find_aux_range [of sub cs 0] by auto
    from False a b c show ?thesis by auto
  qed
qed


lemma find_aux_found:
  "j \<le> length s \<Longrightarrow> prefix sub (drop j s) \<Longrightarrow> \<forall>i<j. \<not> prefix sub (drop i s) \<Longrightarrow> find_aux sub s k = int (k + j)"
proof (induction s arbitrary: j k)
  case Nil
  then show ?case by simp
next
  case (Cons c cs)
  show ?case
  proof (cases j)
    case 0
    with Cons.prems show ?thesis by simp
  next
    case (Suc j')
    with Cons.prems have np: "\<not> prefix sub (c # cs)" by force
    have "find_aux sub cs (Suc k) = int (Suc k + j')"
    proof (rule Cons.IH)
      show "j' \<le> length cs" using Cons.prems Suc by simp
      show "prefix sub (drop j' cs)" using Cons.prems Suc by simp
      show "\<forall>i<j'. \<not> prefix sub (drop i cs)"
      proof (intro allI impI)
        fix i assume "i < j'"
        then have "Suc i < j" using Suc by simp
        with Cons.prems have "\<not> prefix sub (drop (Suc i) (c # cs))" by blast
        then show "\<not> prefix sub (drop i cs)" by simp
      qed
    qed
    with np Suc show ?thesis by simp
  qed
qed

lemma find_aux_none:
  "\<forall>j\<le>length s. \<not> prefix sub (drop j s) \<Longrightarrow> find_aux sub s k = -1"
proof (induction s arbitrary: k)
  case Nil
  then show ?case by auto
next
  case (Cons c cs)
  from Cons.prems have np: "\<not> prefix sub (c # cs)" by force
  have "\<forall>j\<le>length cs. \<not> prefix sub (drop j cs)"
  proof (intro allI impI)
    fix j assume "j \<le> length cs"
    then have "Suc j \<le> length (c # cs)" by simp
    with Cons.prems have "\<not> prefix sub (drop (Suc j) (c # cs))" by blast
    then show "\<not> prefix sub (drop j cs)" by simp
  qed
  then have "find_aux sub cs (Suc k) = -1" by (rule Cons.IH)
  with np show ?case by simp
qed

lemma py_find_0: "py_find s sub 0 = find_aux sub s 0"
  by (simp add: py_find_def)

lemma py_slice_take: "0 \<le> j \<Longrightarrow> py_slice s 0 j = take (nat j) s"
  by (simp add: py_slice_def py_index_def min_def)

lemma split_aux_first:
  "sep \<noteq> [] \<Longrightarrow> \<exists>rest. split_aux sep acc s =
     (rev acc @ (if find_aux sep s 0 = -1 then s else take (nat (find_aux sep s 0)) s)) # rest"
proof (induction s arbitrary: acc)
  case Nil
  then show ?case by simp
next
  case (Cons c cs)
  show ?case
  proof (cases "prefix sep (c # cs)")
    case True
    with Cons.prems show ?thesis by simp
  next
    case False
    from Cons.IH [OF Cons.prems, of "c # acc"] obtain rest where
      r: "split_aux sep (c # acc) cs =
            (rev (c # acc) @ (if find_aux sep cs 0 = -1 then cs else take (nat (find_aux sep cs 0)) cs)) # rest"
      by blast
    have sh: "find_aux sep cs (Suc 0) = (if find_aux sep cs 0 = -1 then -1 else find_aux sep cs 0 + 1)"
      using find_aux_shift [of sep cs "Suc 0"] by simp
    have nn: "find_aux sep cs 0 = -1 \<or> 0 \<le> find_aux sep cs 0"
      using find_aux_range [of sep cs 0] by auto
    show ?thesis
    proof (cases "find_aux sep cs 0 = -1")
      case True
      with False r sh show ?thesis by simp
    next
      case nf: False
      with nn have ge: "0 \<le> find_aux sep cs 0" by simp
      then have "nat (find_aux sep cs 0 + 1) = Suc (nat (find_aux sep cs 0))" by simp
      with False r sh nf ge show ?thesis by simp
    qed
  qed
qed

lemma split_first_is_find_cut: "display_response r = Inr (history_content ''assistant'' r)"
proof -
  have ne: "fence_open \<noteq> []" by (simp add: fence_open_def)
  from split_aux_first [OF ne, of "[]" r] obtain rest where
    s: "split_aux fence_open [] r =
          (if find_aux fence_open r 0 = -1 then r else take (nat (find_aux fence_open r 0)) r) # rest"
    by auto
  have nn: "find_aux fence_open r 0 = -1 \<or> 0 \<le> find_aux fence_open r 0"
    using find_aux_range [of fence_open r 0] by auto
  show ?thesis
  proof (cases "find_aux fence_open r 0 = -1")
    case True
    with s ne show ?thesis
      by (simp add: display_response_def history_content_def py_split_def py_first_def py_find_0)
  next
    case False
    with nn have "0 \<le> find_aux fence_open r 0" by simp
    with s ne False show ?thesis
      by (simp add: display_response_def history_content_def py_split_def py_first_def py_find_0
          py_slice_take)
  qed
qed

lemma find_first_occurrence:
  assumes "r = pre @ sub @ post" and "\<forall>j<length pre. \<not> prefix sub (drop j r)"
  shows "find_aux sub r 0 = int (length pre)"
proof -
  have "find_aux sub r 0 = int (0 + length pre)"
  proof (rule find_aux_found)
    show "length pre \<le> length r" using assms(1) by simp
    show "prefix sub (drop (length pre) r)" using assms(1) by simp
    show "\<forall>i<length pre. \<not> prefix sub (drop i r)" using assms(2) .
  qed
  then show ?thesis by simp
qed

lemma history_content_cut:
  assumes "r = pre @ fence_open @ post" and "\<forall>j<length pre. \<not> prefix fence_open (drop j r)"
  shows "history_content ''assistant'' r = pre"
proof -
  have "find_aux fence_open r 0 = int (length pre)"
    using assms by (rule find_first_occurrence)
  then show ?thesis using assms(1)
    by (simp add: history_content_def py_find_0 py_slice_take)
qed

subsection \<open>Display\<close>

lemma history_content_scenario: "history_content ''assistant'' scenario_reply = ''Thanks! ''"
  by (simp add: history_content_def scenario_reply_def py_find_def fence_open_def py_slice_def
      py_index_def)

lemma display_response_scenario: "display_response scenario_reply = Inr ''Thanks! ''"
  by (simp add: display_response_def scenario_reply_def py_split_def py_first_def fence_open_def)

text \<open>
  Claim C9. When the first \<^verbatim>\<open>```json\<close> of an assistant reply begins right after \<open>pre\<close>,
  both display paths show exactly \<open>pre\<close>, the text strictly before the marker; for the
  reply of the scenario the displayed text is \<^verbatim>\<open>Thanks! \<close> with its trailing blank.
\<close>

theorem display_cut_at_first_fence:
  "((\<forall>j<length pre. \<not> prefix fence_open (drop j (pre @ fence_open @ post))) \<longrightarrow>
      history_content ''assistant'' (pre @ fence_open @ post) = pre \<and>
      display_response (pre @ fence_open @ post) = Inr pre) \<and>
   history_content ''assistant'' scenario_reply = ''Thanks! '' \<and>
   display_response scenario_reply = Inr ''Thanks! ''"
proof (intro conjI impI)
  assume first: "\<forall>j<length pre. \<not> prefix fence_open (drop j (pre @ fence_open @ post))"
  show h: "history_content ''assistant'' (pre @ fence_open @ post) = pre"
    using refl first by (rule history_content_cut)
  show "display_response (pre @ fence_open @ post) = Inr pre"
    using h by (simp add: split_first_is_find_cut)
next
  show "history_content ''assistant'' scenario_reply = ''Thanks! ''"
    by (rule history_content_scenario)
next
  show "display_response scenario_reply = Inr ''Thanks! ''"
    by (rule display_response_scenario)
qed

theorem display_cut_at_first_fence_witness:
  \<open>history_content ''assistant'' (''Thanks! '' @ fence_open @ ''{"a":1}```'') = ''Thanks! '' \<and>
   display_response (''Thanks! '' @ fence_open @ ''{"a":1}```'') = Inr ''Thanks! ''\<close>
proof -
  have h: \<open>\<forall>j<length ''Thanks! ''. \<not> prefix fence_open (drop j (''Thanks! '' @ fence_open @ ''{"a":1}```''))\<close>
    by (simp add: fence_open_def All_less_Suc eval_nat_numeral)
  from display_cut_at_first_fence [of "''Thanks! ''" \<open>''{"a":1}```''\<close>] h show ?thesis
    by blast
qed

text \<open>
  Claim C10. The two display paths agree on every string: cutting at the index that
  \<^verbatim>\<open>find\<close> returns (the whole string when the marker is absent) gives the first piece
  of \<^verbatim>\<open>split\<close>.
\<close>

theorem display_paths_agree:
  "display_response content = Inr (history_content ''assistant'' content)"
  by (rule split_first_is_find_cut)

subsection \<open>The extractor\<close>

lemma py_find_nat:
  "k \<le> length s \<Longrightarrow> py_find s sub (int k) = find_aux sub (drop k s) k"
  by (simp add: py_find_def)

lemma py_slice_mid:
  "py_slice (a @ b @ c) (int (length a)) (int (length a + length b)) = b"
  by (simp add: py_slice_def py_index_def)

lemma first_atD:
  "first_at sub s i \<Longrightarrow> find_aux sub s k = int (k + i)"
  unfolding first_at_def by (rule find_aux_found) auto

lemma absentD: "absent sub s \<Longrightarrow> find_aux sub s k = -1"
  unfolding absent_def by (rule find_aux_none)

lemma drop_fence_open:
  "drop (length pre + 6) (pre @ fence_open @ rest) = CHR ''n'' # rest"
  by (simp add: fence_open_def)

lemma find_close_after_open:
  "find_aux fence_close (CHR ''n'' # rest) k = find_aux fence_close rest (Suc k)"
  by (simp add: fence_close_def)

lemma length_fence_open: "length fence_open = 7"
  by (simp add: fence_open_def)

lemma extract_fenced:
  assumes o: "first_at fence_open (pre @ fence_open @ body @ fence_close @ post) (length pre)"
    and c: "first_at fence_close (body @ fence_close @ post) (length body)"
  shows "extract_lead_data loads (pre @ fence_open @ body @ fence_close @ post) =
           (case loads (py_strip body) of
              Inr v \<Rightarrow> (v, [])
            | Inl e \<Rightarrow> (PyDict [], [Error ''Error extracting lead data'']))"
proof -
  let ?r = "pre @ fence_open @ body @ fence_close @ post"
  have js: "py_find ?r fence_open 0 = int (length pre)"
    using first_atD [OF o, of 0] by (simp add: py_find_0)
  have "py_find ?r fence_close (int (length pre + 6)) =
          find_aux fence_close (drop (length pre + 6) ?r) (length pre + 6)"
    by (rule py_find_nat) (simp add: length_fence_open)
  also have "\<dots> = find_aux fence_close (body @ fence_close @ post) (Suc (length pre + 6))"
    by (simp only: drop_fence_open find_close_after_open)
  also have "\<dots> = int (Suc (length pre + 6) + length body)"
    using c by (rule first_atD)
  finally have je: "py_find ?r fence_close (int (length pre) + 6) = int (length pre + 7 + length body)"
    by simp
  have "py_slice ((pre @ fence_open) @ body @ (fence_close @ post))
          (int (length (pre @ fence_open))) (int (length (pre @ fence_open) + length body)) = body"
    by (rule py_slice_mid)
  then have sl: "py_slice ?r (int (length pre) + 7) (int (length pre + 7 + length body)) = body"
    by (simp add: length_fence_open)
  show ?thesis
    unfolding extract_lead_data_def Let_def js je sl by simp
qed

lemma extract_no_open:
  assumes "absent fence_open r"
  shows "extract_lead_data loads r = (PyDict [], [])"
  using absentD [OF assms, of 0] by (simp add: extract_lead_data_def py_find_0)

lemma extract_no_close:
  assumes o: "first_at fence_open (pre @ fence_open @ rest) (length pre)"
    and c: "absent fence_close rest"
  shows "extract_lead_data loads (pre @ fence_open @ rest) = (PyDict [], [])"
proof -
  let ?r = "pre @ fence_open @ rest"
  have js: "py_find ?r fence_open 0 = int (length pre)"
    using first_atD [OF o, of 0] by (simp add: py_find_0)
  have "py_find ?r fence_close (int (length pre + 6)) =
          find_aux fence_close (drop (length pre + 6) ?r) (length pre + 6)"
    by (rule py_find_nat) (simp add: length_fence_open)
  also have "\<dots> = find_aux fence_close rest (Suc (length pre + 6))"
    by (simp only: drop_fence_open find_close_after_open)
  also have "\<dots> = -1"
    using c by (rule absentD)
  finally have je: "py_find ?r fence_close (int (length pre) + 6) = -1"
    by simp
  show ?thesis
    unfolding extract_lead_data_def Let_def js je by simp
qed

lemma first_at_shorten:
  assumes "first_at sub (x @ y) i" and "i \<le> length x" and "prefix sub (drop i x)"
  shows "first_at sub x i"
  unfolding first_at_def
proof (intro conjI allI impI)
  show "i \<le> length x" by (rule assms(2))
  show "prefix sub (drop i x)" by (rule assms(3))
  fix j assume j: "j < i"
  with assms(1) have n: "\<not> prefix sub (drop j (x @ y))" by (simp add: first_at_def)
  show "\<not> prefix sub (drop j x)"
  proof
    assume "prefix sub (drop j x)"
    then have "prefix sub (drop j x @ y)" by (rule prefix_prefix)
    with j assms(2) n show False by simp
  qed
qed

lemma py_strip_padded:
  assumes l: "list_all is_space l" and r: "list_all is_space r" and c: "trimmed core"
  shows "py_strip (l @ core @ r) = core"
proof (cases core)
  case Nil
  from l r have "\<forall>x\<in>set (l @ r). is_space x" by (auto simp: list_all_iff)
  then have "dropWhile is_space (l @ r) = []" by (simp only: dropWhile_eq_Nil_conv)
  with Nil have "dropWhile is_space (l @ core @ r) = []" by (simp only: append_Nil)
  then have "py_strip (l @ core @ r) = []" by (simp only: py_strip_def rev.simps dropWhile.simps)
  with Nil show ?thesis by simp
next
  case (Cons x xs)
  with c have h: "\<not> is_space x" and t: "\<not> is_space (last core)" by (simp_all add: trimmed_def)
  from l have "dropWhile is_space (l @ core @ r) = dropWhile is_space (core @ r)"
    by (intro dropWhile_append2) (simp add: list_all_iff)
  with Cons h have front: "dropWhile is_space (l @ core @ r) = core @ r" by simp
  from Cons obtain ys y where sn: "core = ys @ [y]" by (metis list.distinct(1) rev_exhaust)
  with t have ny: "\<not> is_space y" by simp
  from r have "dropWhile is_space (rev r @ rev core) = dropWhile is_space (rev core)"
    by (intro dropWhile_append2) (simp add: list_all_iff)
  with sn ny have "dropWhile is_space (rev (core @ r)) = rev core" by simp
  with front show ?thesis by (simp add: py_strip_def)
qed

lemma is_space_iff:
  "is_space c = (of_char c \<in> {9, 10, 11, 12, 13, 28, 29, 30, 31, 32, 133, 160 :: nat})"
  unfolding is_space_def Let_def by auto

text \<open>
  Claim C1. Let the first \<^verbatim>\<open>```json\<close> of the reply begin after \<open>pre\<close>, and let the first
  \<^verbatim>\<open>```\<close> after it close the text \<open>l @ core @ r\<close>, where \<open>l\<close> and \<open>r\<close> are whitespace and
  \<open>core\<close> neither begins nor ends with whitespace. The decoder then receives \<open>core\<close>: if
  it reads \<open>core\<close> as an object, the extractor returns exactly that object; if it rejects
  \<open>core\<close>, the extractor returns the empty record. A reply without the open marker, and
  a reply with the open marker and no close marker after it, give the empty record too.
\<close>

theorem extract_valid_or_empty:
  "(first_at fence_open (pre @ fence_open @ (l @ core @ r) @ fence_close @ post) (length pre) \<and>
    first_at fence_close ((l @ core @ r) @ fence_close @ post) (length (l @ core @ r)) \<and>
    list_all is_space l \<and> list_all is_space r \<and> trimmed core \<longrightarrow>
      py_strip (l @ core @ r) = core \<and>
      (loads core = Inr (PyDict d) \<longrightarrow>
         fst (extract_lead_data loads (pre @ fence_open @ (l @ core @ r) @ fence_close @ post)) =
           PyDict d) \<and>
      (loads core = Inl e \<longrightarrow>
         fst (extract_lead_data loads (pre @ fence_open @ (l @ core @ r) @ fence_close @ post)) =
           PyDict [])) \<and>
   (absent fence_open reply \<longrightarrow> fst (extract_lead_data loads reply) = PyDict []) \<and>
   (first_at fence_open (pre' @ fence_open @ rest) (length pre') \<and> absent fence_close rest \<longrightarrow>
      fst (extract_lead_data loads (pre' @ fence_open @ rest)) = PyDict [])"
proof (intro conjI impI)
  assume h: "first_at fence_open (pre @ fence_open @ (l @ core @ r) @ fence_close @ post) (length pre) \<and>
    first_at fence_close ((l @ core @ r) @ fence_close @ post) (length (l @ core @ r)) \<and>
    list_all is_space l \<and> list_all is_space r \<and> trimmed core"
  then show s: "py_strip (l @ core @ r) = core"
    by (simp add: py_strip_padded)
  from h have x: "extract_lead_data loads (pre @ fence_open @ (l @ core @ r) @ fence_close @ post) =
      (case loads (py_strip (l @ core @ r)) of
         Inr v \<Rightarrow> (v, [])
       | Inl e \<Rightarrow> (PyDict [], [Error ''Error extracting lead data'']))"
    by (intro extract_fenced) simp_all
  {
    assume "loads core = Inr (PyDict d)"
    with x s
    show "fst (extract_lead_data loads (pre @ fence_open @ (l @ core @ r) @ fence_close @ post)) =
        PyDict d"
      by simp
  }
  {
    assume "loads core = Inl e"
    with x s
    show "fst (extract_lead_data loads (pre @ fence_open @ (l @ core @ r) @ fence_close @ post)) =
        PyDict []"
      by simp
  }
next
  assume "absent fence_open reply"
  then show "fst (extract_lead_data loads reply) = PyDict []"
    by (simp add: extract_no_open)
next
  assume "first_at fence_open (pre' @ fence_open @ rest) (length pre') \<and> absent fence_close rest"
  then show "fst (extract_lead_data loads (pre' @ fence_open @ rest)) = PyDict []"
    by (simp add: extract_no_close)
qed

text \<open>
  The witness pads the object with a form feed and a blank in front and with a
  no-break space and a line feed behind. The decoder does not skip the form feed or the
  no-break space: it rejects the padded text and reads the stripped one.
\<close>

theorem extract_valid_or_empty_witness:
  \<open>fst (extract_lead_data json_loads
          (''Hi '' @ fence_open @ ([CHR 0x0C, CHR '' ''] @ ''{"a":1}'' @ [CHR 0xA0, CHR 0x0A]) @
           fence_close @ '' bye'')) =
     PyDict [(''a'', PyInt 1)] \<and>
   py_strip ([CHR 0x0C, CHR '' ''] @ ''{"a":1}'' @ [CHR 0xA0, CHR 0x0A]) = ''{"a":1}'' \<and>
   json_loads ([CHR 0x0C, CHR '' ''] @ ''{"a":1}'' @ [CHR 0xA0, CHR 0x0A]) = Inl JSONDecodeError \<and>
   fst (extract_lead_data json_loads
          (''Hi '' @ fence_open @ ([CHR 0x0C, CHR '' ''] @ ''{"a":1,'' @ [CHR 0xA0, CHR 0x0A]) @
           fence_close @ '' bye'')) =
     PyDict [] \<and>
   fst (extract_lead_data json_loads ''Hi {"a":1}'') = PyDict [] \<and>
   fst (extract_lead_data json_loads (''Hi '' @ fence_open @ '' {"a":1} '')) = PyDict []\<close>
proof -
  let ?l = "[CHR 0x0C, CHR '' '']"
  let ?r = "[CHR 0xA0, CHR 0x0A]"
  have sl: "list_all is_space ?l" and sr: "list_all is_space ?r"
    by (simp_all add: is_space_def)
  have t1: \<open>trimmed ''{"a":1}''\<close> and t2: \<open>trimmed ''{"a":1,''\<close>
    by (simp_all add: trimmed_def is_space_def)
  have o1: \<open>first_at fence_open (''Hi '' @ fence_open @ (?l @ ''{"a":1}'' @ ?r) @ fence_close @ '' bye'')
      (length ''Hi '')\<close>
    by (simp add: first_at_def fence_open_def All_less_Suc eval_nat_numeral)
  have c1: \<open>first_at fence_close ((?l @ ''{"a":1}'' @ ?r) @ fence_close @ '' bye'')
      (length (?l @ ''{"a":1}'' @ ?r))\<close>
    by (simp add: first_at_def fence_close_def All_less_Suc eval_nat_numeral)
  have d1: \<open>json_loads ''{"a":1}'' = Inr (PyDict [(''a'', PyInt 1)])\<close>
    by code_simp
  have p1: \<open>json_loads (?l @ ''{"a":1}'' @ ?r) = Inl JSONDecodeError\<close>
    by code_simp
  have o2: \<open>first_at fence_open (''Hi '' @ fence_open @ (?l @ ''{"a":1,'' @ ?r) @ fence_close @ '' bye'')
      (length ''Hi '')\<close>
    by (simp add: first_at_def fence_open_def All_less_Suc eval_nat_numeral)
  have c2: \<open>first_at fence_close ((?l @ ''{"a":1,'' @ ?r) @ fence_close @ '' bye'')
      (length (?l @ ''{"a":1,'' @ ?r))\<close>
    by (simp add: first_at_def fence_close_def All_less_Suc eval_nat_numeral)
  have d2: \<open>json_loads ''{"a":1,'' = Inl JSONDecodeError\<close>
    by code_simp
  have a3: \<open>absent fence_open ''Hi {"a":1}''\<close>
    by (simp add: absent_def fence_open_def All_less_Suc eval_nat_numeral le_Suc_eq)
  have o4: \<open>first_at fence_open (''Hi '' @ fence_open @ '' {"a":1} '') (length ''Hi '')\<close>
    by (simp add: first_at_def fence_open_def All_less_Suc eval_nat_numeral)
  have a4: \<open>absent fence_close '' {"a":1} ''\<close>
    by (simp add: absent_def fence_close_def All_less_Suc eval_nat_numeral le_Suc_eq)
  from extract_valid_or_empty [where pre = "''Hi ''" and l = ?l and core = \<open>''{"a":1}''\<close> and r = ?r
      and post = "'' bye''" and loads = json_loads and d = \<open>[(''a'', PyInt 1)]\<close>] o1 c1 sl sr t1 d1
  have w1: \<open>fst (extract_lead_data json_loads
      (''Hi '' @ fence_open @ (?l @ ''{"a":1}'' @ ?r) @ fence_close @ '' bye'')) =
      PyDict [(''a'', PyInt 1)] \<and> py_strip (?l @ ''{"a":1}'' @ ?r) = ''{"a":1}''\<close>
    by blast
  from extract_valid_or_empty [where pre = "''Hi ''" and l = ?l and core = \<open>''{"a":1,''\<close> and r = ?r
      and post = "'' bye''" and loads = json_loads and e = JSONDecodeError] o2 c2 sl sr t2 d2
  have w2: \<open>fst (extract_lead_data json_loads
      (''Hi '' @ fence_open @ (?l @ ''{"a":1,'' @ ?r) @ fence_close @ '' bye'')) = PyDict []\<close>
    by blast
  from extract_valid_or_empty [where reply = \<open>''Hi {"a":1}''\<close> and loads = json_loads] a3
  have w3: \<open>fst (extract_lead_data json_loads ''Hi {"a":1}'') = PyDict []\<close>
    by blast
  from extract_valid_or_empty [where pre' = "''Hi ''" and rest = \<open>'' {"a":1} ''\<close> and loads = json_loads] o4 a4
  have w4: \<open>fst (extract_lead_data json_loads (''Hi '' @ fence_open @ '' {"a":1} '')) = PyDict []\<close>
    by blast
  from w1 p1 w2 w3 w4 show ?thesis by blast
qed

text \<open>
  Claim C2. With the first \<^verbatim>\<open>```json\<close> beginning after \<open>pre\<close> and the first \<^verbatim>\<open>```\<close>
  after it closing \<open>body\<close>, the result is the decoding of \<open>body\<close> alone: whatever
  follows that close marker (more fence characters, further blocks) has no effect, and
  the reply cut right after the close marker gives the same result.
\<close>

theorem extract_first_block_only:
  assumes "first_at fence_open (pre @ fence_open @ body @ fence_close @ post) (length pre)"
    and "first_at fence_close (body @ fence_close @ post) (length body)"
  shows "extract_lead_data loads (pre @ fence_open @ body @ fence_close @ post) =
           (case loads (py_strip body) of
              Inr v \<Rightarrow> (v, [])
            | Inl e \<Rightarrow> (PyDict [], [Error ''Error extracting lead data''])) \<and>
         extract_lead_data loads (pre @ fence_open @ body @ fence_close @ post) =
           extract_lead_data loads (pre @ fence_open @ body @ fence_close)"
proof -
  have "first_at fence_open ((pre @ fence_open @ body @ fence_close) @ post) (length pre)"
    using assms(1) by simp
  then have o: "first_at fence_open (pre @ fence_open @ body @ fence_close @ []) (length pre)"
    using first_at_shorten [of fence_open "pre @ fence_open @ body @ fence_close" post "length pre"]
    by simp
  have "first_at fence_close ((body @ fence_close) @ post) (length body)"
    using assms(2) by simp
  then have c: "first_at fence_close (body @ fence_close @ []) (length body)"
    using first_at_shorten [of fence_close "body @ fence_close" post "length body"]
    by simp
  from extract_fenced [OF assms, of loads] extract_fenced [OF o c, of loads]
  show ?thesis by simp
qed

theorem extract_first_block_only_witness:
  \<open>extract_lead_data json_loads (fence_open @ ''{"a":1}'' @ fence_close @ ''json{"b":2}```'') =
     (PyDict [(''a'', PyInt 1)], [])\<close>
proof -
  have o: \<open>first_at fence_open ([] @ fence_open @ ''{"a":1}'' @ fence_close @ ''json{"b":2}```'') (length ([] :: string))\<close>
    by (simp add: first_at_def)
  have c: \<open>first_at fence_close (''{"a":1}'' @ fence_close @ ''json{"b":2}```'') (length ''{"a":1}'')\<close>
    by (simp add: first_at_def fence_close_def All_less_Suc eval_nat_numeral)
  have d: \<open>json_loads (py_strip ''{"a":1}'') = Inr (PyDict [(''a'', PyInt 1)])\<close>
    by code_simp
  from extract_first_block_only [OF o c, of json_loads] d show ?thesis
    by simp
qed

text \<open>
  Claim C5. The extractor returns on every reply, but what it returns is whatever the
  decoder read: for the reply \<^verbatim>\<open>```json[1]```\<close> it is the list \<^verbatim>\<open>[1]\<close>, no mapping, and
  the item assignment of \<^verbatim>\<open>update_lead_info\<close> then raises \<^verbatim>\<open>TypeError\<close> whatever the
  registry holds. \<^verbatim>\<open>update_lead_info\<close> raises exactly on the values that count as true
  and are no dict.
\<close>

theorem process_reply_type_error:
  "fst (extract_lead_data json_loads ''```json[1]```'') = PyList [PyInt 1] \<and>
   process_reply json_loads now ''```json[1]```'' leads = Inl TypeError \<and>
   (\<exists>e. update_lead_info now v leads = Inl e) = (py_truthy v \<and> (\<forall>d. v \<noteq> PyDict d))"
proof (intro conjI)
  show e: "fst (extract_lead_data json_loads ''```json[1]```'') = PyList [PyInt 1]"
    by code_simp
  then show "process_reply json_loads now ''```json[1]```'' leads = Inl TypeError"
    by (simp add: process_reply_def update_lead_info_def)
  show "(\<exists>e. update_lead_info now v leads = Inl e) = (py_truthy v \<and> (\<forall>d. v \<noteq> PyDict d))"
    by (cases v) (auto simp: update_lead_info_def Let_def split: option.splits)
qed

subsection \<open>Equality and truth of values\<close>

lemma py_eq_refl: "a \<noteq> PyFloat FNaN \<Longrightarrow> py_eq a a"
  by (simp add: py_eq_def)

lemma py_eq_sym: "py_eq a b \<Longrightarrow> py_eq b a"
  by (simp add: py_eq_def)

lemma py_eq_trans: "py_eq a b \<Longrightarrow> py_eq b c \<Longrightarrow> py_eq a c"
  by (simp add: py_eq_def)

lemma py_truthy_canon: "py_truthy (canon a) = py_truthy a"
proof (cases a)
  case (PyDict d)
  have "length (sort_key fst (map (map_prod id canon) d)) = length d" by simp
  then have "(sort_key fst (map (map_prod id canon) d) = []) = (d = [])"
    by (metis length_0_conv)
  with PyDict show ?thesis by simp
qed auto

lemma py_eq_truthy: "py_eq a b \<Longrightarrow> py_truthy a = py_truthy b"
  by (metis py_eq_def py_truthy_canon)

lemma py_eq_not_nan: "py_eq a b \<Longrightarrow> a \<noteq> PyFloat FNaN \<and> b \<noteq> PyFloat FNaN"
  by (simp add: py_eq_def)

subsection \<open>Dictionaries\<close>

lemma map_of_setitem: "map_of (dict_setitem k v d) = (map_of d)(k \<mapsto> v)"
  by (simp add: dict_setitem_def update_conv')

lemma dict_get_setitem:
  "dict_get (dict_setitem k v d) k' = (if k' = k then v else dict_get d k')"
  by (simp add: dict_get_def map_of_setitem)

lemma keys_setitem: "fst ` set (dict_setitem k v d) = insert k (fst ` set d)"
  unfolding dict_setitem_def by (induction d) auto

lemma setitem_nonempty: "dict_setitem k v d \<noteq> []"
  by (simp add: dict_setitem_def)

lemma map_of_fold_setitem:
  "map_of (fold (\<lambda>k acc. dict_setitem k (g k) acc) ks d) k =
     (if k \<in> set ks then Some (g k) else map_of d k)"
  by (induction ks arbitrary: d) (auto simp: map_of_setitem)

lemma map_of_dict_update:
  "map_of (dict_update d e) k = (if k \<in> fst ` set e then map_of e k else map_of d k)"
proof (cases "k \<in> fst ` set e")
  case True
  then obtain v where "map_of e k = Some v"
    by (metis domD dom_map_of_conv_image_fst)
  with True show ?thesis
    by (simp add: dict_update_def map_of_fold_setitem dict_get_def)
next
  case False
  then show ?thesis
    by (simp add: dict_update_def map_of_fold_setitem)
qed

lemma dict_get_dict_update:
  "dict_get (dict_update d e) k = (if k \<in> fst ` set e then dict_get e k else dict_get d k)"
  by (simp add: dict_get_def map_of_dict_update)

lemma truthy_get_key: "py_truthy (dict_get d k) \<Longrightarrow> k \<in> fst ` set d"
proof (rule ccontr)
  assume t: "py_truthy (dict_get d k)" and "k \<notin> fst ` set d"
  then have "map_of d k = None" by (simp add: map_of_eq_None_iff)
  with t show False by (simp add: dict_get_def)
qed

lemma setitem_twice: "dict_setitem k v (dict_setitem k u d) = dict_setitem k v d"
  unfolding dict_setitem_def by (induction d) auto

lemma setitem_triv: "map_of d k = Some v \<Longrightarrow> dict_setitem k v d = d"
  by (simp add: dict_setitem_def update_triv)

lemma fold_setitem_again:
  assumes "\<forall>k\<in>set ks. k \<noteq> t \<longrightarrow> map_of d k = Some (g k)"
  shows "fold (\<lambda>k acc. dict_setitem k (g k) acc) ks d =
           (if t \<in> set ks then dict_setitem t (g t) d else d)"
  using assms
proof (induction ks arbitrary: d)
  case Nil
  then show ?case by simp
next
  case (Cons k ks)
  show ?case
  proof (cases "k = t")
    case True
    have "\<forall>k'\<in>set ks. k' \<noteq> t \<longrightarrow> map_of (dict_setitem t (g t) d) k' = Some (g k')"
      using Cons.prems by (simp add: map_of_setitem)
    from Cons.IH [OF this] True show ?thesis
      by (simp add: setitem_twice)
  next
    case False
    with Cons.prems have "map_of d k = Some (g k)" by simp
    then have "dict_setitem k (g k) d = d" by (rule setitem_triv)
    moreover have "\<forall>k'\<in>set ks. k' \<noteq> t \<longrightarrow> map_of d k' = Some (g k')"
      using Cons.prems by simp
    ultimately show ?thesis using Cons.IH [of d] False by simp
  qed
qed

subsection \<open>The scan of the registry\<close>

lemma merge_first_None:
  "(merge_first d leads = None) =
     (\<forall>lead\<in>set leads. \<not> py_eq (dict_get lead ''email'') (dict_get d ''email''))"
  by (induction leads) auto

lemma merge_first_at:
  assumes "i < length leads"
    and "py_eq (dict_get (leads ! i) ''email'') (dict_get d ''email'')"
    and "\<forall>j<i. \<not> py_eq (dict_get (leads ! j) ''email'') (dict_get d ''email'')"
  shows "merge_first d leads = Some (leads[i := dict_update (leads ! i) d])"
  using assms
proof (induction leads arbitrary: i)
  case Nil
  then show ?case by simp
next
  case (Cons lead rest)
  show ?case
  proof (cases i)
    case 0
    with Cons.prems show ?thesis by simp
  next
    case (Suc i')
    with Cons.prems have n0: "\<not> py_eq (dict_get lead ''email'') (dict_get d ''email'')"
      by auto
    have "merge_first d rest = Some (rest[i' := dict_update (rest ! i') d])"
    proof (rule Cons.IH)
      show "i' < length rest" using Cons.prems Suc by simp
      show "py_eq (dict_get (rest ! i') ''email'') (dict_get d ''email'')"
        using Cons.prems Suc by simp
      show "\<forall>j<i'. \<not> py_eq (dict_get (rest ! j) ''email'') (dict_get d ''email'')"
        using Cons.prems(3) Suc by auto
    qed
    with n0 Suc show ?thesis by simp
  qed
qed

lemma merge_first_Some:
  assumes "merge_first d leads = Some leads'"
  shows "\<exists>i<length leads.
           py_eq (dict_get (leads ! i) ''email'') (dict_get d ''email'') \<and>
           (\<forall>j<i. \<not> py_eq (dict_get (leads ! j) ''email'') (dict_get d ''email'')) \<and>
           leads' = leads[i := dict_update (leads ! i) d]"
  using assms
proof (induction leads arbitrary: leads')
  case Nil
  then show ?case by simp
next
  case (Cons lead rest)
  show ?case
  proof (cases "py_eq (dict_get lead ''email'') (dict_get d ''email'')")
    case True
    with Cons.prems have "leads' = (lead # rest)[0 := dict_update ((lead # rest) ! 0) d]"
      by auto
    with True show ?thesis by (intro exI [of _ 0]) simp
  next
    case False
    with Cons.prems obtain rest' where r: "merge_first d rest = Some rest'"
      and l: "leads' = lead # rest'"
      by auto
    from Cons.IH [OF r] obtain i where i: "i < length rest"
      "py_eq (dict_get (rest ! i) ''email'') (dict_get d ''email'')"
      "\<forall>j<i. \<not> py_eq (dict_get (rest ! j) ''email'') (dict_get d ''email'')"
      "rest' = rest[i := dict_update (rest ! i) d]"
      by blast
    have "\<forall>j<Suc i. \<not> py_eq (dict_get ((lead # rest) ! j) ''email'') (dict_get d ''email'')"
      using False i(3) by (auto simp: less_Suc_eq_0_disj)
    with i l show ?thesis by (intro exI [of _ "Suc i"]) simp
  qed
qed

subsection \<open>The registry update\<close>

lemma update_lead_info_falsy:
  "\<not> py_truthy v \<Longrightarrow> update_lead_info now v leads = Inr leads"
  by (simp add: update_lead_info_def)

lemma update_lead_info_append:
  assumes "d \<noteq> []" and "\<not> py_truthy (dict_get d ''email'')"
  shows "update_lead_info now (PyDict d) leads =
           Inr (leads @ [dict_setitem ''timestamp'' (PyStr now) d])"
  using assms by (simp add: update_lead_info_def Let_def dict_get_setitem)

lemma update_lead_info_new:
  assumes "py_truthy (dict_get d ''email'')"
    and "\<forall>lead\<in>set leads. \<not> py_eq (dict_get lead ''email'') (dict_get d ''email'')"
  shows "update_lead_info now (PyDict d) leads =
           Inr (leads @ [dict_setitem ''timestamp'' (PyStr now) d])"
proof -
  from assms(1) have ne: "d \<noteq> []" by (auto simp: dict_get_def)
  have "merge_first (dict_setitem ''timestamp'' (PyStr now) d) leads = None"
    using assms(2) by (simp add: merge_first_None dict_get_setitem)
  with assms(1) ne show ?thesis
    by (simp add: update_lead_info_def Let_def dict_get_setitem)
qed

lemma update_lead_info_merge:
  assumes "py_truthy (dict_get d ''email'')"
    and "i < length leads"
    and "py_eq (dict_get (leads ! i) ''email'') (dict_get d ''email'')"
    and "\<forall>j<i. \<not> py_eq (dict_get (leads ! j) ''email'') (dict_get d ''email'')"
  shows "update_lead_info now (PyDict d) leads =
           Inr (leads[i := dict_update (leads ! i) (dict_setitem ''timestamp'' (PyStr now) d)])"
proof -
  from assms(1) have ne: "d \<noteq> []" by (auto simp: dict_get_def)
  have "merge_first (dict_setitem ''timestamp'' (PyStr now) d) leads =
          Some (leads[i := dict_update (leads ! i) (dict_setitem ''timestamp'' (PyStr now) d)])"
    using assms(2-4) by (intro merge_first_at) (simp_all add: dict_get_setitem)
  with assms(1) ne show ?thesis
    by (simp add: update_lead_info_def Let_def dict_get_setitem)
qed

text \<open>The three outcomes of a call on a non-empty dict.\<close>

lemma update_lead_info_cases:
  assumes "d \<noteq> []"
  obtains
    (appended) "update_lead_info now (PyDict d) leads =
        Inr (leads @ [dict_setitem ''timestamp'' (PyStr now) d])"
      "py_truthy (dict_get d ''email'') \<longrightarrow>
        (\<forall>lead\<in>set leads. \<not> py_eq (dict_get lead ''email'') (dict_get d ''email''))"
  | (merged) i where "i < length leads" "py_truthy (dict_get d ''email'')"
      "py_eq (dict_get (leads ! i) ''email'') (dict_get d ''email'')"
      "\<forall>j<i. \<not> py_eq (dict_get (leads ! j) ''email'') (dict_get d ''email'')"
      "update_lead_info now (PyDict d) leads =
        Inr (leads[i := dict_update (leads ! i) (dict_setitem ''timestamp'' (PyStr now) d)])"
proof (cases "py_truthy (dict_get d ''email'')")
  case False
  with assms appended show ?thesis by (simp add: update_lead_info_append)
next
  case True
  show ?thesis
  proof (cases "merge_first d leads")
    case None
    then have n: "\<forall>lead\<in>set leads. \<not> py_eq (dict_get lead ''email'') (dict_get d ''email'')"
      by (simp add: merge_first_None)
    with True appended show ?thesis by (simp add: update_lead_info_new)
  next
    case (Some leads')
    from merge_first_Some [OF this] obtain i where i: "i < length leads"
      "py_eq (dict_get (leads ! i) ''email'') (dict_get d ''email'')"
      "\<forall>j<i. \<not> py_eq (dict_get (leads ! j) ''email'') (dict_get d ''email'')"
      by blast
    with True merged show ?thesis by (simp add: update_lead_info_merge)
  qed
qed

lemma merged_entry_email:
  assumes "py_truthy (dict_get d ''email'')"
  shows "dict_get (dict_update lead (dict_setitem ''timestamp'' (PyStr now) d)) ''email'' =
           dict_get d ''email''"
proof -
  from assms have "''email'' \<in> fst ` set d" by (rule truthy_get_key)
  then show ?thesis
    by (simp add: dict_get_dict_update keys_setitem dict_get_setitem)
qed

subsection \<open>Uniqueness of emails\<close>

lemma unique_emails_append:
  assumes u: "unique_emails leads"
    and n: "py_truthy (dict_get d ''email'') \<longrightarrow>
      (\<forall>lead\<in>set leads. \<not> py_eq (dict_get lead ''email'') (dict_get d ''email''))"
  shows "unique_emails (leads @ [d])"
  unfolding unique_emails_def
proof (intro allI impI)
  fix i j
  assume i: "i < length (leads @ [d])" and j: "j < length (leads @ [d])"
    and h: "i \<noteq> j \<and> py_truthy (dict_get ((leads @ [d]) ! i) ''email'')"
  show "\<not> py_eq (dict_get ((leads @ [d]) ! i) ''email'') (dict_get ((leads @ [d]) ! j) ''email'')"
  proof (cases "i < length leads")
    case il: True
    show ?thesis
    proof (cases "j < length leads")
      case True
      with il h u show ?thesis by (simp add: unique_emails_def nth_append)
    next
      case False
      with j have jn: "j = length leads" by simp
      from il h have ti: "py_truthy (dict_get (leads ! i) ''email'')" by (simp add: nth_append)
      show ?thesis
      proof
        assume "py_eq (dict_get ((leads @ [d]) ! i) ''email'') (dict_get ((leads @ [d]) ! j) ''email'')"
        with il jn have e: "py_eq (dict_get (leads ! i) ''email'') (dict_get d ''email'')"
          by (simp add: nth_append)
        with ti have "py_truthy (dict_get d ''email'')" using py_eq_truthy by blast
        with n il e show False by (metis nth_mem)
      qed
    qed
  next
    case False
    with i have ie: "i = length leads" by simp
    with h j have jl: "j < length leads" by simp
    from ie h have td: "py_truthy (dict_get d ''email'')" by simp
    show ?thesis
    proof
      assume "py_eq (dict_get ((leads @ [d]) ! i) ''email'') (dict_get ((leads @ [d]) ! j) ''email'')"
      with ie jl have "py_eq (dict_get d ''email'') (dict_get (leads ! j) ''email'')"
        by (simp add: nth_append)
      then have "py_eq (dict_get (leads ! j) ''email'') (dict_get d ''email'')" by (rule py_eq_sym)
      with n td jl show False by (metis nth_mem)
    qed
  qed
qed

lemma unique_emails_replace:
  assumes u: "unique_emails leads" and i: "i < length leads"
    and e: "py_eq (dict_get (leads ! i) ''email'') (dict_get entry ''email'')"
  shows "unique_emails (leads[i := entry])"
  unfolding unique_emails_def
proof (intro allI impI)
  fix a b
  assume a: "a < length (leads[i := entry])" and b: "b < length (leads[i := entry])"
    and h: "a \<noteq> b \<and> py_truthy (dict_get (leads[i := entry] ! a) ''email'')"
  from u have old: "\<And>x y. x < length leads \<Longrightarrow> y < length leads \<Longrightarrow> x \<noteq> y \<Longrightarrow>
      py_truthy (dict_get (leads ! x) ''email'') \<Longrightarrow>
      \<not> py_eq (dict_get (leads ! x) ''email'') (dict_get (leads ! y) ''email'')"
    by (simp add: unique_emails_def)
  show "\<not> py_eq (dict_get (leads[i := entry] ! a) ''email'') (dict_get (leads[i := entry] ! b) ''email'')"
  proof (cases "a = i")
    case True
    with h have bi: "b \<noteq> i" by simp
    from True h i have te: "py_truthy (dict_get entry ''email'')" by simp
    with e have ti: "py_truthy (dict_get (leads ! i) ''email'')" using py_eq_truthy by blast
    show ?thesis
    proof
      assume "py_eq (dict_get (leads[i := entry] ! a) ''email'') (dict_get (leads[i := entry] ! b) ''email'')"
      with True bi i have "py_eq (dict_get entry ''email'') (dict_get (leads ! b) ''email'')" by simp
      with e have "py_eq (dict_get (leads ! i) ''email'') (dict_get (leads ! b) ''email'')"
        by (rule py_eq_trans)
      moreover have "\<not> py_eq (dict_get (leads ! i) ''email'') (dict_get (leads ! b) ''email'')"
        using i b bi ti by (intro old) simp_all
      ultimately show False by simp
    qed
  next
    case False
    with h have ta: "py_truthy (dict_get (leads ! a) ''email'')" by simp
    show ?thesis
    proof (cases "b = i")
      case bi: True
      show ?thesis
      proof
        assume "py_eq (dict_get (leads[i := entry] ! a) ''email'') (dict_get (leads[i := entry] ! b) ''email'')"
        with False bi i have "py_eq (dict_get (leads ! a) ''email'') (dict_get entry ''email'')" by simp
        moreover from e have "py_eq (dict_get entry ''email'') (dict_get (leads ! i) ''email'')"
          by (rule py_eq_sym)
        ultimately have "py_eq (dict_get (leads ! a) ''email'') (dict_get (leads ! i) ''email'')"
          by (rule py_eq_trans)
        moreover have "\<not> py_eq (dict_get (leads ! a) ''email'') (dict_get (leads ! i) ''email'')"
          using a i False ta by (intro old) simp_all
        ultimately show False by simp
      qed
    next
      case bn: False
      have "\<not> py_eq (dict_get (leads ! a) ''email'') (dict_get (leads ! b) ''email'')"
        using a b h ta by (intro old) simp_all
      with False bn show ?thesis by simp
    qed
  qed
qed

lemma update_lead_info_unique:
  assumes u: "unique_emails leads" and r: "update_lead_info now v leads = Inr leads'"
  shows "unique_emails leads'"
proof (cases "py_truthy v")
  case False
  with r u show ?thesis by (simp add: update_lead_info_falsy)
next
  case True
  with r obtain d where v: "v = PyDict d"
    by (cases v) (simp_all add: update_lead_info_def)
  with True have ne: "d \<noteq> []" by simp
  from ne show ?thesis
  proof (cases rule: update_lead_info_cases [where now = now and leads = leads])
    case appended
    have "py_truthy (dict_get (dict_setitem ''timestamp'' (PyStr now) d) ''email'') \<longrightarrow>
        (\<forall>lead\<in>set leads. \<not> py_eq (dict_get lead ''email'')
           (dict_get (dict_setitem ''timestamp'' (PyStr now) d) ''email''))"
      using appended(2) by (simp add: dict_get_setitem)
    with u have "unique_emails (leads @ [dict_setitem ''timestamp'' (PyStr now) d])"
      by (rule unique_emails_append)
    with appended(1) r v show ?thesis by simp
  next
    case (merged i)
    have "py_eq (dict_get (leads ! i) ''email'')
        (dict_get (dict_update (leads ! i) (dict_setitem ''timestamp'' (PyStr now) d)) ''email'')"
      using merged(3) by (simp add: merged_entry_email [OF merged(2)])
    with u merged(1)
    have "unique_emails (leads[i := dict_update (leads ! i) (dict_setitem ''timestamp'' (PyStr now) d)])"
      by (rule unique_emails_replace)
    with merged(5) r v show ?thesis by simp
  qed
qed

lemma reachable_unique: "reachable leads \<Longrightarrow> unique_emails leads"
proof (induction rule: reachable.induct)
  case initial
  show ?case by (simp add: unique_emails_def)
next
  case (upsert leads now lead_data leads')
  then show ?case using update_lead_info_unique by blast
qed

subsection \<open>Claims about the registry\<close>

text \<open>
  Claim C3. Upserting \<^verbatim>\<open>{email: a@x.com, lead_quality: warm}\<close> into the empty registry and
  then \<^verbatim>\<open>{email: a@x.com, company: Acme}\<close> leaves one entry, with the fields of both and
  the time stamp of the second call. In general, when the incoming email counts as true
  and entry \<open>i\<close> is the first whose email equals it, the call updates entry \<open>i\<close> with the
  stamped incoming record, field by field, and changes no other entry.
\<close>

theorem upsert_merges_into_first_match:
  "update_lead_info t1
      (PyDict [(''email'', PyStr ''a@x.com''), (''lead_quality'', PyStr ''warm'')]) [] =
     Inr [[(''email'', PyStr ''a@x.com''), (''lead_quality'', PyStr ''warm''),
           (''timestamp'', PyStr t1)]] \<and>
   update_lead_info t2
      (PyDict [(''email'', PyStr ''a@x.com''), (''company'', PyStr ''Acme'')])
      [[(''email'', PyStr ''a@x.com''), (''lead_quality'', PyStr ''warm''),
        (''timestamp'', PyStr t1)]] =
     Inr [[(''email'', PyStr ''a@x.com''), (''lead_quality'', PyStr ''warm''),
           (''timestamp'', PyStr t2), (''company'', PyStr ''Acme'')]] \<and>
   (py_truthy (dict_get d ''email'') \<and> i < length leads \<and>
    py_eq (dict_get (leads ! i) ''email'') (dict_get d ''email'') \<and>
    (\<forall>j<i. \<not> py_eq (dict_get (leads ! j) ''email'') (dict_get d ''email'')) \<longrightarrow>
      update_lead_info now (PyDict d) leads =
        Inr (leads[i := dict_update (leads ! i) (dict_setitem ''timestamp'' (PyStr now) d)]) \<and>
      (\<forall>k. map_of (dict_update (leads ! i) (dict_setitem ''timestamp'' (PyStr now) d)) k =
         (if k = ''timestamp'' then Some (PyStr now)
          else if k \<in> fst ` set d then map_of d k
          else map_of (leads ! i) k)))"
proof (intro conjI impI allI)
  show "update_lead_info t1
      (PyDict [(''email'', PyStr ''a@x.com''), (''lead_quality'', PyStr ''warm'')]) [] =
     Inr [[(''email'', PyStr ''a@x.com''), (''lead_quality'', PyStr ''warm''),
           (''timestamp'', PyStr t1)]]"
    by (simp add: update_lead_info_def dict_setitem_def dict_get_def)
next
  show "update_lead_info t2
      (PyDict [(''email'', PyStr ''a@x.com''), (''company'', PyStr ''Acme'')])
      [[(''email'', PyStr ''a@x.com''), (''lead_quality'', PyStr ''warm''),
        (''timestamp'', PyStr t1)]] =
     Inr [[(''email'', PyStr ''a@x.com''), (''lead_quality'', PyStr ''warm''),
           (''timestamp'', PyStr t2), (''company'', PyStr ''Acme'')]]"
    by (simp add: update_lead_info_def dict_setitem_def dict_get_def dict_update_def py_eq_def)
next
  assume h: "py_truthy (dict_get d ''email'') \<and> i < length leads \<and>
    py_eq (dict_get (leads ! i) ''email'') (dict_get d ''email'') \<and>
    (\<forall>j<i. \<not> py_eq (dict_get (leads ! j) ''email'') (dict_get d ''email''))"
  then show "update_lead_info now (PyDict d) leads =
        Inr (leads[i := dict_update (leads ! i) (dict_setitem ''timestamp'' (PyStr now) d)])"
    by (intro update_lead_info_merge) simp_all
next
  fix k
  show "map_of (dict_update (leads ! i) (dict_setitem ''timestamp'' (PyStr now) d)) k =
         (if k = ''timestamp'' then Some (PyStr now)
          else if k \<in> fst ` set d then map_of d k
          else map_of (leads ! i) k)"
    by (simp add: map_of_dict_update keys_setitem map_of_setitem)
qed

theorem upsert_merges_into_first_match_witness:
  "update_lead_info ''2024-05-02T10:00:00''
      (PyDict [(''email'', PyStr ''a@x.com''), (''company'', PyStr ''Acme'')])
      [[(''email'', PyStr ''b@x.com''), (''timestamp'', PyStr ''2024-05-01T09:00:00'')],
       [(''email'', PyStr ''a@x.com''), (''lead_quality'', PyStr ''warm''),
        (''timestamp'', PyStr ''2024-05-01T10:00:00'')]] =
     Inr [[(''email'', PyStr ''b@x.com''), (''timestamp'', PyStr ''2024-05-01T09:00:00'')],
          [(''email'', PyStr ''a@x.com''), (''lead_quality'', PyStr ''warm''),
           (''timestamp'', PyStr ''2024-05-02T10:00:00''), (''company'', PyStr ''Acme'')]]"
proof -
  let ?d = "[(''email'', PyStr ''a@x.com''), (''company'', PyStr ''Acme'')]"
  let ?leads = "[[(''email'', PyStr ''b@x.com''), (''timestamp'', PyStr ''2024-05-01T09:00:00'')],
       [(''email'', PyStr ''a@x.com''), (''lead_quality'', PyStr ''warm''),
        (''timestamp'', PyStr ''2024-05-01T10:00:00'')]]"
  have h: "py_truthy (dict_get ?d ''email'') \<and> Suc 0 < length ?leads \<and>
    py_eq (dict_get (?leads ! Suc 0) ''email'') (dict_get ?d ''email'') \<and>
    (\<forall>j<Suc 0. \<not> py_eq (dict_get (?leads ! j) ''email'') (dict_get ?d ''email''))"
    by (simp add: dict_get_def py_eq_def)
  from upsert_merges_into_first_match [of _ _ ?d "Suc 0" ?leads "''2024-05-02T10:00:00''"] h
  have "update_lead_info ''2024-05-02T10:00:00'' (PyDict ?d) ?leads =
        Inr (?leads[Suc 0 := dict_update (?leads ! Suc 0)
          (dict_setitem ''timestamp'' (PyStr ''2024-05-02T10:00:00'') ?d)])"
    by blast
  then show ?thesis
    by (simp add: dict_update_def dict_setitem_def dict_get_def)
qed

text \<open>
  Claim C4, for non-empty records. In every registry reachable from the empty one, two
  different entries never carry equal emails that count as true. A call that returns a
  registry of the same length for a non-empty record has updated one entry at its index
  and left the order alone; a non-empty record whose email is missing or counts as false
  is appended; the empty record is ignored.
\<close>

theorem registry_unique_emails_in_place:
  "(reachable leads \<longrightarrow> unique_emails leads) \<and>
   (d \<noteq> [] \<and> update_lead_info now (PyDict d) leads = Inr leads' \<and>
    length leads' = length leads \<longrightarrow>
      (\<exists>i<length leads.
         leads' = leads[i := dict_update (leads ! i) (dict_setitem ''timestamp'' (PyStr now) d)])) \<and>
   (d \<noteq> [] \<and> \<not> py_truthy (dict_get d ''email'') \<longrightarrow>
      update_lead_info now (PyDict d) leads =
        Inr (leads @ [dict_setitem ''timestamp'' (PyStr now) d])) \<and>
   update_lead_info now (PyDict []) leads = Inr leads"
proof (intro conjI impI)
  assume "reachable leads"
  then show "unique_emails leads" by (rule reachable_unique)
next
  assume h: "d \<noteq> [] \<and> update_lead_info now (PyDict d) leads = Inr leads' \<and>
    length leads' = length leads"
  then have ne: "d \<noteq> []" by simp
  from ne show "\<exists>i<length leads.
         leads' = leads[i := dict_update (leads ! i) (dict_setitem ''timestamp'' (PyStr now) d)]"
  proof (cases rule: update_lead_info_cases [where now = now and leads = leads])
    case appended
    with h show ?thesis by auto
  next
    case (merged i)
    with h show ?thesis by auto
  qed
next
  assume "d \<noteq> [] \<and> \<not> py_truthy (dict_get d ''email'')"
  then show "update_lead_info now (PyDict d) leads =
        Inr (leads @ [dict_setitem ''timestamp'' (PyStr now) d])"
    by (simp add: update_lead_info_append)
next
  show "update_lead_info now (PyDict []) leads = Inr leads"
    by (simp add: update_lead_info_def)
qed

text \<open>
  The witness: the registry of \<^verbatim>\<open>a@x.com\<close> and \<^verbatim>\<open>b@x.com\<close> is reached by two calls, so the
  two emails differ; a further record for \<^verbatim>\<open>a@x.com\<close> is merged into entry 0, which stays
  in front of entry 1; a record without email is appended after both; the empty record
  leaves the two entries as they are.
\<close>

theorem registry_unique_emails_in_place_witness:
  "unique_emails
     [[(''email'', PyStr ''a@x.com''), (''timestamp'', PyStr ''t1'')],
      [(''email'', PyStr ''b@x.com''), (''timestamp'', PyStr ''t2'')]] \<and>
   \<not> py_eq (PyStr ''a@x.com'') (PyStr ''b@x.com'') \<and>
   unique_emails
     [[(''email'', PyStr ''a@x.com''), (''timestamp'', PyStr ''t3''), (''company'', PyStr ''Acme'')],
      [(''email'', PyStr ''b@x.com''), (''timestamp'', PyStr ''t2'')]] \<and>
   update_lead_info ''t3'' (PyDict [(''email'', PyStr ''a@x.com''), (''company'', PyStr ''Acme'')])
     [[(''email'', PyStr ''a@x.com''), (''timestamp'', PyStr ''t1'')],
      [(''email'', PyStr ''b@x.com''), (''timestamp'', PyStr ''t2'')]] =
     Inr ([[(''email'', PyStr ''a@x.com''), (''timestamp'', PyStr ''t1'')],
           [(''email'', PyStr ''b@x.com''), (''timestamp'', PyStr ''t2'')]]
          [0 := dict_update [(''email'', PyStr ''a@x.com''), (''timestamp'', PyStr ''t1'')]
                  (dict_setitem ''timestamp'' (PyStr ''t3'')
                     [(''email'', PyStr ''a@x.com''), (''company'', PyStr ''Acme'')])]) \<and>
   update_lead_info ''t4'' (PyDict [(''name'', PyStr ''Bob'')])
     [[(''email'', PyStr ''a@x.com''), (''timestamp'', PyStr ''t1'')],
      [(''email'', PyStr ''b@x.com''), (''timestamp'', PyStr ''t2'')]] =
     Inr ([[(''email'', PyStr ''a@x.com''), (''timestamp'', PyStr ''t1'')],
           [(''email'', PyStr ''b@x.com''), (''timestamp'', PyStr ''t2'')]] @
          [dict_setitem ''timestamp'' (PyStr ''t4'') [(''name'', PyStr ''Bob'')]]) \<and>
   update_lead_info ''t5'' (PyDict [])
     [[(''email'', PyStr ''a@x.com''), (''timestamp'', PyStr ''t1'')],
      [(''email'', PyStr ''b@x.com''), (''timestamp'', PyStr ''t2'')]] =
     Inr [[(''email'', PyStr ''a@x.com''), (''timestamp'', PyStr ''t1'')],
          [(''email'', PyStr ''b@x.com''), (''timestamp'', PyStr ''t2'')]]"
proof -
  let ?A = "[(''email'', PyStr ''a@x.com''), (''timestamp'', PyStr ''t1'')]"
  let ?B = "[(''email'', PyStr ''b@x.com''), (''timestamp'', PyStr ''t2'')]"
  let ?L = "[?A, ?B]"
  let ?d = "[(''email'', PyStr ''a@x.com''), (''company'', PyStr ''Acme'')]"
  let ?A' = "[(''email'', PyStr ''a@x.com''), (''timestamp'', PyStr ''t3''), (''company'', PyStr ''Acme'')]"
  let ?L' = "[?A', ?B]"
  let ?bob = "[(''name'', PyStr ''Bob'')]"
  have s1: "update_lead_info ''t1'' (PyDict [(''email'', PyStr ''a@x.com'')]) [] = Inr [?A]"
    by (simp add: update_lead_info_def dict_setitem_def dict_get_def)
  have s2: "update_lead_info ''t2'' (PyDict [(''email'', PyStr ''b@x.com'')]) [?A] = Inr ?L"
    by (simp add: update_lead_info_def dict_setitem_def dict_get_def py_eq_def)
  have s3: "update_lead_info ''t3'' (PyDict ?d) ?L = Inr ?L'"
    by (simp add: update_lead_info_def dict_setitem_def dict_get_def dict_update_def py_eq_def)
  from reachable.initial s1 have "reachable [?A]" by (rule reachable.upsert)
  from this s2 have r: "reachable ?L" by (rule reachable.upsert)
  from this s3 have r': "reachable ?L'" by (rule reachable.upsert)
  from registry_unique_emails_in_place [where leads = ?L] r have w1: "unique_emails ?L" by blast
  then have "\<forall>i<length ?L. \<forall>j<length ?L.
      i \<noteq> j \<and> py_truthy (dict_get (?L ! i) ''email'') \<longrightarrow>
      \<not> py_eq (dict_get (?L ! i) ''email'') (dict_get (?L ! j) ''email'')"
    by (simp only: unique_emails_def)
  from this [rule_format, of 0 1] have w2: "\<not> py_eq (PyStr ''a@x.com'') (PyStr ''b@x.com'')"
    by (simp add: dict_get_def)
  from registry_unique_emails_in_place [where leads = ?L'] r' have w3: "unique_emails ?L'" by blast
  from registry_unique_emails_in_place [where leads = ?L and d = ?d and now = "''t3''" and leads' = ?L'] s3
  obtain i where i: "i < length ?L"
    and m: "?L' = ?L[i := dict_update (?L ! i) (dict_setitem ''timestamp'' (PyStr ''t3'') ?d)]"
    by auto
  have "i \<noteq> 1"
  proof
    assume "i = 1"
    with m have "?L' ! 0 = ?A" by simp
    then show False by simp
  qed
  with i have "i = 0" by simp
  with m s3 have w4: "update_lead_info ''t3'' (PyDict ?d) ?L =
      Inr (?L[0 := dict_update ?A (dict_setitem ''timestamp'' (PyStr ''t3'') ?d)])"
    by simp
  have f: "\<not> py_truthy (dict_get ?bob ''email'')"
    by (simp add: dict_get_def)
  from registry_unique_emails_in_place [where leads = ?L and d = ?bob and now = "''t4''"] f
  have w5: "update_lead_info ''t4'' (PyDict ?bob) ?L =
     Inr (?L @ [dict_setitem ''timestamp'' (PyStr ''t4'') ?bob])"
    by simp
  from registry_unique_emails_in_place [where leads = ?L and now = "''t5''"]
  have w6: "update_lead_info ''t5'' (PyDict []) ?L = Inr ?L"
    by blast
  from w1 w2 w3 w4 w5 w6 show ?thesis by blast
qed

text \<open>
  The empty record has no email either, and the guard of line 65 returns before anything
  is appended: without the restriction to non-empty records the last part of Claim C4
  fails.
\<close>

theorem empty_record_not_appended:
  "\<not> py_truthy (dict_get [] ''email'') \<and>
   update_lead_info ''t2'' (PyDict [])
     [[(''email'', PyStr ''a@x.com''), (''timestamp'', PyStr ''t1'')]] =
     Inr [[(''email'', PyStr ''a@x.com''), (''timestamp'', PyStr ''t1'')]] \<and>
   update_lead_info ''t2'' (PyDict [])
     [[(''email'', PyStr ''a@x.com''), (''timestamp'', PyStr ''t1'')]] \<noteq>
     Inr ([[(''email'', PyStr ''a@x.com''), (''timestamp'', PyStr ''t1'')]] @
          [dict_setitem ''timestamp'' (PyStr ''t2'') []])"
  by (simp add: update_lead_info_def dict_get_def)

lemma dict_update_restamp:
  assumes "\<forall>k\<in>fst ` set d. k \<noteq> ''timestamp'' \<longrightarrow> map_of x k = map_of d k"
  shows "dict_update x (dict_setitem ''timestamp'' (PyStr t) d) =
           dict_setitem ''timestamp'' (PyStr t) x"
proof -
  let ?s = "dict_setitem ''timestamp'' (PyStr t) d"
  have "\<forall>k\<in>set (map fst ?s). k \<noteq> ''timestamp'' \<longrightarrow> map_of x k = Some (dict_get ?s k)"
  proof (intro ballI impI)
    fix k assume k: "k \<in> set (map fst ?s)" and n: "k \<noteq> ''timestamp''"
    then have kd: "k \<in> fst ` set d" by (simp add: keys_setitem)
    then obtain v where v: "map_of d k = Some v"
      by (metis domD dom_map_of_conv_image_fst)
    from kd n assms have "map_of x k = map_of d k" by blast
    with v have "map_of x k = Some v" by simp
    moreover from v n have "dict_get ?s k = v"
      by (simp add: dict_get_def map_of_setitem)
    ultimately show "map_of x k = Some (dict_get ?s k)" by simp
  qed
  then have "fold (\<lambda>k acc. dict_setitem k (dict_get ?s k) acc) (map fst ?s) x =
      (if ''timestamp'' \<in> set (map fst ?s) then dict_setitem ''timestamp'' (dict_get ?s ''timestamp'') x
       else x)"
    by (rule fold_setitem_again)
  then show ?thesis
    by (simp add: dict_update_def keys_setitem dict_get_setitem)
qed

lemma update_lead_info_again:
  assumes t: "py_truthy (dict_get d ''email'')"
    and n: "dict_get d ''email'' \<noteq> PyFloat FNaN"
    and r: "update_lead_info t1 (PyDict d) leads = Inr l1"
  shows "\<exists>i<length l1. update_lead_info t2 (PyDict d) l1 =
           Inr (l1[i := dict_setitem ''timestamp'' (PyStr t2) (l1 ! i)])"
proof -
  let ?s1 = "dict_setitem ''timestamp'' (PyStr t1) d"
  from n have self: "py_eq (dict_get d ''email'') (dict_get d ''email'')" by (rule py_eq_refl)
  from t have ne: "d \<noteq> []" by (auto simp: dict_get_def)
  from ne show ?thesis
  proof (cases rule: update_lead_info_cases [where now = t1 and leads = leads])
    case appended
    with r have l1: "l1 = leads @ [?s1]" by simp
    have "update_lead_info t2 (PyDict d) l1 =
        Inr (l1[length leads := dict_update (l1 ! length leads) (dict_setitem ''timestamp'' (PyStr t2) d)])"
    proof (rule update_lead_info_merge [OF t])
      show "length leads < length l1" by (simp add: l1)
      show "py_eq (dict_get (l1 ! length leads) ''email'') (dict_get d ''email'')"
        using self by (simp add: l1 dict_get_setitem)
      show "\<forall>j<length leads. \<not> py_eq (dict_get (l1 ! j) ''email'') (dict_get d ''email'')"
        using appended(2) t by (simp add: l1 nth_append)
    qed
    moreover have "dict_update (l1 ! length leads) (dict_setitem ''timestamp'' (PyStr t2) d) =
        dict_setitem ''timestamp'' (PyStr t2) (l1 ! length leads)"
      by (rule dict_update_restamp) (simp add: l1 map_of_setitem)
    ultimately show ?thesis by (intro exI [of _ "length leads"]) (simp add: l1)
  next
    case (merged i)
    with r have l1: "l1 = leads[i := dict_update (leads ! i) ?s1]" by simp
    have "update_lead_info t2 (PyDict d) l1 =
        Inr (l1[i := dict_update (l1 ! i) (dict_setitem ''timestamp'' (PyStr t2) d)])"
    proof (rule update_lead_info_merge [OF t])
      show "i < length l1" using merged(1) by (simp add: l1)
      show "py_eq (dict_get (l1 ! i) ''email'') (dict_get d ''email'')"
        using merged(1) self by (simp add: l1 merged_entry_email [OF t])
      show "\<forall>j<i. \<not> py_eq (dict_get (l1 ! j) ''email'') (dict_get d ''email'')"
        using merged(4) by (simp add: l1)
    qed
    moreover have "dict_update (l1 ! i) (dict_setitem ''timestamp'' (PyStr t2) d) =
        dict_setitem ''timestamp'' (PyStr t2) (l1 ! i)"
      using merged(1)
      by (intro dict_update_restamp) (simp add: l1 map_of_dict_update keys_setitem map_of_setitem)
    ultimately show ?thesis using merged(1) by (intro exI [of _ i]) (simp add: l1)
  qed
qed

lemma update_lead_info_nan:
  assumes "dict_get d ''email'' = PyFloat FNaN"
  shows "update_lead_info now (PyDict d) leads =
           Inr (leads @ [dict_setitem ''timestamp'' (PyStr now) d])"
proof (rule update_lead_info_new)
  show "py_truthy (dict_get d ''email'')" using assms by simp
  show "\<forall>lead\<in>set leads. \<not> py_eq (dict_get lead ''email'') (dict_get d ''email'')"
    using assms by (simp add: py_eq_def)
qed

text \<open>
  Claim C6, for emails that equal themselves. Upserting a non-empty record twice in a
  row. When its email counts as true and is not \<^verbatim>\<open>nan\<close>, the second call adds no entry: it
  changes one entry of the registry left by the first call, and there only the time
  stamp, so that emails stay unique if they were. When the email is missing or counts as
  false, each call appends its own stamped copy, and the two copies differ in the time
  stamp only. An email \<^verbatim>\<open>nan\<close> counts as true and equals no email, itself included: each
  call appends then too.
\<close>

theorem upsert_twice:
  "d \<noteq> [] \<longrightarrow>
     (\<exists>l1 l2. update_lead_info t1 (PyDict d) leads = Inr l1 \<and>
        update_lead_info t2 (PyDict d) l1 = Inr l2 \<and>
        (py_truthy (dict_get d ''email'') \<and> dict_get d ''email'' \<noteq> PyFloat FNaN \<longrightarrow>
           length l2 = length l1 \<and>
           (\<exists>i<length l1. l2 = l1[i := dict_setitem ''timestamp'' (PyStr t2) (l1 ! i)] \<and>
              (\<forall>k. k \<noteq> ''timestamp'' \<longrightarrow> map_of (l2 ! i) k = map_of (l1 ! i) k)) \<and>
           (unique_emails leads \<longrightarrow> unique_emails l2)) \<and>
        (\<not> py_truthy (dict_get d ''email'') \<or> dict_get d ''email'' = PyFloat FNaN \<longrightarrow>
           l1 = leads @ [dict_setitem ''timestamp'' (PyStr t1) d] \<and>
           l2 = leads @ [dict_setitem ''timestamp'' (PyStr t1) d,
                         dict_setitem ''timestamp'' (PyStr t2) d] \<and>
           (\<forall>k. k \<noteq> ''timestamp'' \<longrightarrow>
              map_of (dict_setitem ''timestamp'' (PyStr t2) d) k =
              map_of (dict_setitem ''timestamp'' (PyStr t1) d) k)))"
proof
  assume ne: "d \<noteq> []"
  let ?s1 = "dict_setitem ''timestamp'' (PyStr t1) d"
  let ?s2 = "dict_setitem ''timestamp'' (PyStr t2) d"
  show "\<exists>l1 l2. update_lead_info t1 (PyDict d) leads = Inr l1 \<and>
        update_lead_info t2 (PyDict d) l1 = Inr l2 \<and>
        (py_truthy (dict_get d ''email'') \<and> dict_get d ''email'' \<noteq> PyFloat FNaN \<longrightarrow>
           length l2 = length l1 \<and>
           (\<exists>i<length l1. l2 = l1[i := dict_setitem ''timestamp'' (PyStr t2) (l1 ! i)] \<and>
              (\<forall>k. k \<noteq> ''timestamp'' \<longrightarrow> map_of (l2 ! i) k = map_of (l1 ! i) k)) \<and>
           (unique_emails leads \<longrightarrow> unique_emails l2)) \<and>
        (\<not> py_truthy (dict_get d ''email'') \<or> dict_get d ''email'' = PyFloat FNaN \<longrightarrow>
           l1 = leads @ [?s1] \<and> l2 = leads @ [?s1, ?s2] \<and>
           (\<forall>k. k \<noteq> ''timestamp'' \<longrightarrow> map_of ?s2 k = map_of ?s1 k))"
  proof (cases "py_truthy (dict_get d ''email'') \<and> dict_get d ''email'' \<noteq> PyFloat FNaN")
    case False
    have a: "update_lead_info t1 (PyDict d) leads = Inr (leads @ [?s1])"
    proof (cases "py_truthy (dict_get d ''email'')")
      case True
      with False show ?thesis by (simp add: update_lead_info_nan)
    next
      case f: False
      with ne show ?thesis by (rule update_lead_info_append)
    qed
    have b: "update_lead_info t2 (PyDict d) (leads @ [?s1]) = Inr ((leads @ [?s1]) @ [?s2])"
    proof (cases "py_truthy (dict_get d ''email'')")
      case True
      with False show ?thesis by (simp add: update_lead_info_nan)
    next
      case f: False
      with ne show ?thesis by (rule update_lead_info_append)
    qed
    from a b False show ?thesis by (auto simp: map_of_setitem)
  next
    case True
    then have t: "py_truthy (dict_get d ''email'')" and n: "dict_get d ''email'' \<noteq> PyFloat FNaN"
      by simp_all
    from ne obtain l1 where l1: "update_lead_info t1 (PyDict d) leads = Inr l1"
      by (cases rule: update_lead_info_cases [where now = t1 and leads = leads]) auto
    from update_lead_info_again [OF t n l1, of t2] obtain i where i: "i < length l1"
      and l2: "update_lead_info t2 (PyDict d) l1 =
        Inr (l1[i := dict_setitem ''timestamp'' (PyStr t2) (l1 ! i)])"
      by blast
    let ?l2 = "l1[i := dict_setitem ''timestamp'' (PyStr t2) (l1 ! i)]"
    have u: "unique_emails leads \<longrightarrow> unique_emails ?l2"
      using l1 l2 update_lead_info_unique by blast
    have k: "\<forall>k. k \<noteq> ''timestamp'' \<longrightarrow> map_of (?l2 ! i) k = map_of (l1 ! i) k"
      using i by (simp add: map_of_setitem)
    from True l1 l2 i u k show ?thesis by auto
  qed
qed

theorem upsert_twice_witness:
  "(\<exists>l1 l2.
      update_lead_info ''t1'' (PyDict [(''email'', PyStr ''a@x.com'')])
        [[(''email'', PyStr ''b@x.com''), (''timestamp'', PyStr ''t0'')]] = Inr l1 \<and>
      update_lead_info ''t2'' (PyDict [(''email'', PyStr ''a@x.com'')]) l1 = Inr l2 \<and>
      length l2 = length l1 \<and> unique_emails l2) \<and>
   (\<exists>l1 l2.
      update_lead_info ''t1'' (PyDict [(''name'', PyStr ''Bob'')]) [] = Inr l1 \<and>
      update_lead_info ''t2'' (PyDict [(''name'', PyStr ''Bob'')]) l1 = Inr l2 \<and>
      l2 = [dict_setitem ''timestamp'' (PyStr ''t1'') [(''name'', PyStr ''Bob'')],
            dict_setitem ''timestamp'' (PyStr ''t2'') [(''name'', PyStr ''Bob'')]]) \<and>
   (\<exists>l1 l2.
      update_lead_info ''t1'' (PyDict [(''email'', PyFloat FNaN)]) [] = Inr l1 \<and>
      update_lead_info ''t2'' (PyDict [(''email'', PyFloat FNaN)]) l1 = Inr l2 \<and>
      l2 = [dict_setitem ''timestamp'' (PyStr ''t1'') [(''email'', PyFloat FNaN)],
            dict_setitem ''timestamp'' (PyStr ''t2'') [(''email'', PyFloat FNaN)]])"
proof -
  let ?b = "[[(''email'', PyStr ''b@x.com''), (''timestamp'', PyStr ''t0'')]]"
  have n: "dict_get [(''email'', PyFloat FNaN)] ''email'' = PyFloat FNaN"
    by (simp add: dict_get_def)
  from upsert_twice [of "[(''email'', PyFloat FNaN)]" "''t1''" "[]" "''t2''"] n
  have w3: "\<exists>l1 l2.
      update_lead_info ''t1'' (PyDict [(''email'', PyFloat FNaN)]) [] = Inr l1 \<and>
      update_lead_info ''t2'' (PyDict [(''email'', PyFloat FNaN)]) l1 = Inr l2 \<and>
      l2 = [dict_setitem ''timestamp'' (PyStr ''t1'') [(''email'', PyFloat FNaN)],
            dict_setitem ''timestamp'' (PyStr ''t2'') [(''email'', PyFloat FNaN)]]"
    by fastforce
  have t: "py_truthy (dict_get [(''email'', PyStr ''a@x.com'')] ''email'') \<and>
      dict_get [(''email'', PyStr ''a@x.com'')] ''email'' \<noteq> PyFloat FNaN"
    by (simp add: dict_get_def)
  have f: "\<not> py_truthy (dict_get [(''name'', PyStr ''Bob'')] ''email'')"
    by (simp add: dict_get_def)
  have u: "unique_emails ?b"
    by (simp add: unique_emails_def)
  from upsert_twice [of "[(''email'', PyStr ''a@x.com'')]" "''t1''" ?b "''t2''"] t u
  have w1: "\<exists>l1 l2.
      update_lead_info ''t1'' (PyDict [(''email'', PyStr ''a@x.com'')]) ?b = Inr l1 \<and>
      update_lead_info ''t2'' (PyDict [(''email'', PyStr ''a@x.com'')]) l1 = Inr l2 \<and>
      length l2 = length l1 \<and> unique_emails l2"
    by fastforce
  from upsert_twice [of "[(''name'', PyStr ''Bob'')]" "''t1''" "[]" "''t2''"] f
  have w2: "\<exists>l1 l2.
      update_lead_info ''t1'' (PyDict [(''name'', PyStr ''Bob'')]) [] = Inr l1 \<and>
      update_lead_info ''t2'' (PyDict [(''name'', PyStr ''Bob'')]) l1 = Inr l2 \<and>
      l2 = [dict_setitem ''timestamp'' (PyStr ''t1'') [(''name'', PyStr ''Bob'')],
            dict_setitem ''timestamp'' (PyStr ''t2'') [(''name'', PyStr ''Bob'')]]"
    by fastforce
  from w1 w2 w3 show ?thesis by blast
qed

text \<open>
  Without the restriction Claim C6 fails. The reply \<^verbatim>\<open>```json{"email": NaN}```\<close> decodes to
  a record whose email is \<^verbatim>\<open>nan\<close>; upserting that record twice leaves two entries with
  that email, where the claim promises one.
\<close>

theorem nan_email_appended_twice:
  \<open>fst (extract_lead_data json_loads ''```json{"email": NaN}```'') =
     PyDict [(''email'', PyFloat FNaN)] \<and>
   py_truthy (dict_get [(''email'', PyFloat FNaN)] ''email'') \<and>
   update_lead_info ''t1'' (PyDict [(''email'', PyFloat FNaN)]) [] =
     Inr [[(''email'', PyFloat FNaN), (''timestamp'', PyStr ''t1'')]] \<and>
   update_lead_info ''t2'' (PyDict [(''email'', PyFloat FNaN)])
     [[(''email'', PyFloat FNaN), (''timestamp'', PyStr ''t1'')]] =
     Inr [[(''email'', PyFloat FNaN), (''timestamp'', PyStr ''t1'')],
          [(''email'', PyFloat FNaN), (''timestamp'', PyStr ''t2'')]]\<close>
proof (intro conjI)
  show \<open>fst (extract_lead_data json_loads ''```json{"email": NaN}```'') =
     PyDict [(''email'', PyFloat FNaN)]\<close>
    by code_simp
  show "py_truthy (dict_get [(''email'', PyFloat FNaN)] ''email'')"
    by (simp add: dict_get_def)
  show "update_lead_info ''t1'' (PyDict [(''email'', PyFloat FNaN)]) [] =
     Inr [[(''email'', PyFloat FNaN), (''timestamp'', PyStr ''t1'')]]"
    by (simp add: update_lead_info_def dict_setitem_def dict_get_def)
  show "update_lead_info ''t2'' (PyDict [(''email'', PyFloat FNaN)])
     [[(''email'', PyFloat FNaN), (''timestamp'', PyStr ''t1'')]] =
     Inr [[(''email'', PyFloat FNaN), (''timestamp'', PyStr ''t1'')],
          [(''email'', PyFloat FNaN), (''timestamp'', PyStr ''t2'')]]"
    by (simp add: update_lead_info_def dict_setitem_def dict_get_def py_eq_def)
qed

text \<open>
  Claim C7. A call on a non-empty record either appends the stamped record and leaves
  the entries before it as they were, or replaces one entry \<open>i\<close> and leaves the others
  as they were; in the replaced entry the time stamp is that of the call, and a key that
  the incoming record lacks, other than the time stamp, keeps the value it had or stays
  absent. A call on the empty record returns the registry unchanged.
\<close>

theorem upsert_frame:
  "(d \<noteq> [] \<longrightarrow>
      update_lead_info now (PyDict d) leads =
        Inr (leads @ [dict_setitem ''timestamp'' (PyStr now) d]) \<or>
      (\<exists>i<length leads. \<exists>e.
         update_lead_info now (PyDict d) leads = Inr (leads[i := e]) \<and>
         map_of e ''timestamp'' = Some (PyStr now) \<and>
         (\<forall>k. k \<notin> fst ` set d \<and> k \<noteq> ''timestamp'' \<longrightarrow> map_of e k = map_of (leads ! i) k))) \<and>
   update_lead_info now (PyDict []) leads = Inr leads"
proof (intro conjI impI)
  assume ne: "d \<noteq> []"
  from ne show "update_lead_info now (PyDict d) leads =
        Inr (leads @ [dict_setitem ''timestamp'' (PyStr now) d]) \<or>
      (\<exists>i<length leads. \<exists>e.
         update_lead_info now (PyDict d) leads = Inr (leads[i := e]) \<and>
         map_of e ''timestamp'' = Some (PyStr now) \<and>
         (\<forall>k. k \<notin> fst ` set d \<and> k \<noteq> ''timestamp'' \<longrightarrow> map_of e k = map_of (leads ! i) k))"
  proof (cases rule: update_lead_info_cases [where now = now and leads = leads])
    case appended
    then show ?thesis by simp
  next
    case (merged i)
    let ?e = "dict_update (leads ! i) (dict_setitem ''timestamp'' (PyStr now) d)"
    have "map_of ?e ''timestamp'' = Some (PyStr now)"
      by (simp add: map_of_dict_update keys_setitem map_of_setitem)
    moreover have "\<forall>k. k \<notin> fst ` set d \<and> k \<noteq> ''timestamp'' \<longrightarrow> map_of ?e k = map_of (leads ! i) k"
      by (simp add: map_of_dict_update keys_setitem)
    ultimately show ?thesis using merged(1) merged(5) by blast
  qed
next
  show "update_lead_info now (PyDict []) leads = Inr leads"
    by (simp add: update_lead_info_def)
qed

theorem upsert_frame_witness:
  "(\<exists>e. update_lead_info ''t2''
            (PyDict [(''email'', PyStr ''a@x.com''), (''company'', PyStr ''Acme'')])
            [[(''email'', PyStr ''a@x.com''), (''lead_quality'', PyStr ''warm''),
              (''timestamp'', PyStr ''t1'')]] = Inr [e] \<and>
        map_of e ''timestamp'' = Some (PyStr ''t2'') \<and>
        map_of e ''lead_quality'' = Some (PyStr ''warm'')) \<and>
   update_lead_info ''t2'' (PyDict [])
      [[(''email'', PyStr ''a@x.com''), (''lead_quality'', PyStr ''warm''),
        (''timestamp'', PyStr ''t1'')]] =
     Inr [[(''email'', PyStr ''a@x.com''), (''lead_quality'', PyStr ''warm''),
           (''timestamp'', PyStr ''t1'')]]"
proof -
  let ?d = "[(''email'', PyStr ''a@x.com''), (''company'', PyStr ''Acme'')]"
  let ?l = "[(''email'', PyStr ''a@x.com''), (''lead_quality'', PyStr ''warm''),
              (''timestamp'', PyStr ''t1'')]"
  note f = upsert_frame [of ?d "''t2''" "[?l]"]
  have n: "update_lead_info ''t2'' (PyDict ?d) [?l] \<noteq>
      Inr ([?l] @ [dict_setitem ''timestamp'' (PyStr ''t2'') ?d])"
    by (simp add: update_lead_info_def dict_setitem_def dict_get_def dict_update_def py_eq_def)
  from f n obtain i e where i: "i < length [?l]"
    and u: "update_lead_info ''t2'' (PyDict ?d) [?l] = Inr ([?l][i := e])"
    and ts: "map_of e ''timestamp'' = Some (PyStr ''t2'')"
    and k: "\<forall>k. k \<notin> fst ` set ?d \<and> k \<noteq> ''timestamp'' \<longrightarrow> map_of e k = map_of ([?l] ! i) k"
    by auto
  from i have i0: "i = 0" by simp
  from k i0 have "map_of e ''lead_quality'' = Some (PyStr ''warm'')" by simp
  with u ts i0 have w1: "\<exists>e. update_lead_info ''t2'' (PyDict ?d) [?l] = Inr [e] \<and>
        map_of e ''timestamp'' = Some (PyStr ''t2'') \<and>
        map_of e ''lead_quality'' = Some (PyStr ''warm'')"
    by auto
  from f have w2: "update_lead_info ''t2'' (PyDict []) [?l] = Inr [?l]" by blast
  from w1 w2 show ?thesis by blast
qed

subsection \<open>Export\<close>

lemma set_fold_add_column: "set (fold add_column ks cols) = set ks \<union> set cols"
  by (induction ks arbitrary: cols) (auto simp: add_column_def)

lemma distinct_fold_add_column: "distinct cols \<Longrightarrow> distinct (fold add_column ks cols)"
  by (induction ks arbitrary: cols) (auto simp: add_column_def)

text \<open>
  Claim C8. \<^verbatim>\<open>save_leads_to_csv\<close> returns \<^verbatim>\<open>False\<close> exactly when the registry is empty, and
  exactly then the button shows the warning and nothing else. For a registry of one
  record the text written has two rows: the header, which lists the keys of the record
  once each, and one data row with as many fields as the header.
\<close>

theorem export_empty_or_table:
  "((\<not> fst (save_leads_to_csv cell leads)) = (leads = [])) \<and>
   ((export_button cell leads = [Warning ''No leads to export'']) = (leads = [])) \<and>
   (\<exists>header line.
      save_leads_to_csv cell [lead] = (True, Some [header, line]) \<and>
      set header = fst ` set lead \<and> distinct header \<and>
      line = map (\<lambda>k. cell (map_of lead k)) header \<and>
      length line = length header)"
proof (intro conjI)
  show "(\<not> fst (save_leads_to_csv cell leads)) = (leads = [])"
    by (simp add: save_leads_to_csv_def)
next
  show "(export_button cell leads = [Warning ''No leads to export'']) = (leads = [])"
    by (simp add: export_button_def save_leads_to_csv_def)
next
  let ?h = "columns_of [lead]"
  have "save_leads_to_csv cell [lead] = (True, Some [?h, map (\<lambda>k. cell (map_of lead k)) ?h])"
    by (simp add: save_leads_to_csv_def to_csv_def DataFrame_def comp_def)
  moreover have "set ?h = fst ` set lead"
    by (simp add: columns_of_def set_fold_add_column)
  moreover have "distinct ?h"
    by (simp add: columns_of_def distinct_fold_add_column)
  ultimately show "\<exists>header line.
      save_leads_to_csv cell [lead] = (True, Some [header, line]) \<and>
      set header = fst ` set lead \<and> distinct header \<and>
      line = map (\<lambda>k. cell (map_of lead k)) header \<and>
      length line = length header"
    by simp
qed

end
